theory Spec2Isabelle
  imports Main
begin

section \<open>Regular expressions as the source uses them\<close>

text \<open>
  The list sub-parser of showdown (\<^verbatim>\<open>src/subParsers/makehtml/list.js\<close>) is written almost
  entirely with JavaScript regular expressions. They are embedded as terms of the datatype
  \<open>rx\<close> and run by a backtracking matcher that lists, in the priority order of the
  ECMAScript matcher, every way a pattern can match from a position: the first element of
  that list is the match JavaScript reports.

  Strings are lists of characters; a character stands for one code unit in the range
  0 to 255. The sentinel character of the source (U+00A8, the diaeresis) is
  \<open>CHR 0xA8\<close>.
\<close>

datatype rx =
    Cls "char \<Rightarrow> bool"
  | Eps
  | Seq rx rx
  | Alt rx rx
  | Rep nat "nat option" bool rx
  | Grp nat rx
  | Bol
  | Eol
  | Ahead rx
  | NAhead rx
  | Bref nat

text \<open>
  \<open>Cls P\<close> is a character class, \<open>Rep mn mx greedy r\<close> is the quantifier
  \<open>r{mn,mx}\<close> (\<open>mx = None\<close>: unbounded; \<open>greedy = False\<close>: the lazy form
  \<open>r{mn,mx}?\<close>), \<open>Grp i r\<close> is the \<open>i\<close>-th capturing group, \<open>Bol\<close> and
  \<open>Eol\<close> are \<open>^\<close> and \<open>$\<close>, \<open>Ahead\<close> and \<open>NAhead\<close> are \<open>(?=r)\<close> and
  \<open>(?!r)\<close>, \<open>Bref i\<close> is the back-reference \<open>\i\<close>.
\<close>

type_synonym caps = "nat \<Rightarrow> (nat \<times> nat) option"
type_synonym mstate = "nat \<times> caps"

fun rsize :: "rx \<Rightarrow> nat" where
  "rsize (Seq a b) = Suc (rsize a + rsize b)"
| "rsize (Alt a b) = Suc (rsize a + rsize b)"
| "rsize (Rep mn mx g r) = Suc (rsize r)"
| "rsize (Grp i r) = Suc (rsize r)"
| "rsize (Ahead r) = Suc (rsize r)"
| "rsize (NAhead r) = Suc (rsize r)"
| "rsize _ = 0"

fun grps :: "rx \<Rightarrow> nat list" where
  "grps (Seq a b) = grps a @ grps b"
| "grps (Alt a b) = grps a @ grps b"
| "grps (Rep mn mx g r) = grps r"
| "grps (Grp i r) = i # grps r"
| "grps (Ahead r) = grps r"
| "grps (NAhead r) = grps r"
| "grps _ = []"

definition clear_caps :: "nat list \<Rightarrow> caps \<Rightarrow> caps" where
  "clear_caps is c = (\<lambda>i. if i \<in> set is then None else c i)"

definition line_terminator :: "char \<Rightarrow> bool" where
  "line_terminator c = (c = CHR 0x0A \<or> c = CHR 0x0D)"

definition slice :: "string \<Rightarrow> nat \<Rightarrow> nat \<Rightarrow> string" where
  "slice s a b = take (b - a) (drop a s)"

fun dec_max :: "nat option \<Rightarrow> nat option" where
  "dec_max None = None"
| "dec_max (Some k) = Some (k - 1)"

text \<open>
  \<open>matcher ml inp r (p, c)\<close>: the end positions and captures of the matches of \<open>r\<close> in
  \<open>inp\<close> that start at \<open>p\<close> with captures \<open>c\<close>, most preferred first; \<open>ml\<close> is the
  \<open>m\<close> flag. A quantifier whose minimum is met does not repeat an iteration that matched
  the empty string, and every iteration first clears the captures of the groups it
  contains, as the ECMAScript matcher does. The bound \<open>q \<le> length inp\<close> in the
  quantifier holds of every match (lemma \<open>matcher_bounds\<close>); it is written out for the
  termination argument only.
\<close>

function matcher :: "bool \<Rightarrow> string \<Rightarrow> rx \<Rightarrow> mstate \<Rightarrow> mstate list" where
  "matcher ml inp (Cls P) (p, c) = (if p < length inp \<and> P (inp ! p) then [(Suc p, c)] else [])"
| "matcher ml inp Eps st = [st]"
| "matcher ml inp (Seq a b) st = concat (map (matcher ml inp b) (matcher ml inp a st))"
| "matcher ml inp (Alt a b) st = matcher ml inp a st @ matcher ml inp b st"
| "matcher ml inp (Grp i r) (p, c) = map (\<lambda>(q, c'). (q, c'(i := Some (p, q)))) (matcher ml inp r (p, c))"
| "matcher ml inp Bol (p, c) =
     (if p = 0 \<or> (ml \<and> p \<le> length inp \<and> line_terminator (inp ! (p - 1))) then [(p, c)] else [])"
| "matcher ml inp Eol (p, c) =
     (if p = length inp \<or> (ml \<and> p < length inp \<and> line_terminator (inp ! p)) then [(p, c)] else [])"
| "matcher ml inp (Ahead r) (p, c) = (case matcher ml inp r (p, c) of [] \<Rightarrow> [] | (q, c') # _ \<Rightarrow> [(p, c')])"
| "matcher ml inp (NAhead r) (p, c) = (case matcher ml inp r (p, c) of [] \<Rightarrow> [(p, c)] | _ # _ \<Rightarrow> [])"
| "matcher ml inp (Bref i) (p, c) =
     (case c i of None \<Rightarrow> [(p, c)]
      | Some (a, b) \<Rightarrow> if p + (b - a) \<le> length inp \<and> slice inp p (p + (b - a)) = slice inp a b
                       then [(p + (b - a), c)] else [])"
| "matcher ml inp (Rep mn mx g r) (p, c) =
     (if mx = Some 0 then [(p, c)]
      else if 0 < mn then
        concat (map (matcher ml inp (Rep (mn - 1) (dec_max mx) g r)) (matcher ml inp r (p, clear_caps (grps r) c)))
      else
        (let more = concat (map (matcher ml inp (Rep 0 (dec_max mx) g r))
                      (filter (\<lambda>(q, c'). p < q \<and> q \<le> length inp) (matcher ml inp r (p, clear_caps (grps r) c))))
         in if g then more @ [(p, c)] else (p, c) # more))"
  by pat_completeness auto
termination
  apply (relation "measures [\<lambda>(ml, inp, r, st). rsize r,
                             \<lambda>(ml, inp, r, st). (case r of Rep mn mx g r' \<Rightarrow> mn | _ \<Rightarrow> 0),
                             \<lambda>(ml, inp, r, (p, c)). length inp - p]")
  apply auto
  done

lemmas matcher_Rep = matcher.simps(11)
declare matcher.simps(11) [simp del]

lemma matcher_bounds:
  "x \<in> set (matcher ml inp r st) \<Longrightarrow> fst st \<le> length inp \<Longrightarrow> fst st \<le> fst x \<and> fst x \<le> length inp"
proof (induction ml inp r st arbitrary: x rule: matcher.induct)
  case (3 ml inp a b st)
  from 3(3) obtain y where y: "y \<in> set (matcher ml inp a st)" "x \<in> set (matcher ml inp b y)"
    by auto
  from 3(1)[OF y(1) 3(4)] have b1: "fst st \<le> fst y \<and> fst y \<le> length inp" .
  from 3(2)[OF y(1) y(2)] b1 have "fst y \<le> fst x \<and> fst x \<le> length inp" by simp
  with b1 show ?case by simp
next
  case (11 ml inp mn mx g r p c)
  show ?case
  proof (cases "mx = Some 0")
    case True
    with 11(5) 11(6) show ?thesis by (simp add: matcher_Rep)
  next
    case nz: False
    show ?thesis
    proof (cases "0 < mn")
      case True
      with nz 11(5) obtain y where y: "y \<in> set (matcher ml inp r (p, clear_caps (grps r) c))"
        "x \<in> set (matcher ml inp (Rep (mn - 1) (dec_max mx) g r) y)" by (auto simp: matcher_Rep[of _ _ mn])
      from 11(1)[OF nz True y(1)] 11(6) have b1: "p \<le> fst y \<and> fst y \<le> length inp" by simp
      from 11(2)[OF nz True y(1) y(2)] b1 have "fst y \<le> fst x \<and> fst x \<le> length inp" by simp
      with b1 show ?thesis by simp
    next
      case False
      show ?thesis
      proof (cases "x = (p, c)")
        case True
        with 11(6) show ?thesis by simp
      next
        case ne: False
        with nz False 11(5) obtain y where
          y: "y \<in> set (filter (\<lambda>(q, c'). p < q \<and> q \<le> length inp) (matcher ml inp r (p, clear_caps (grps r) c)))"
          "x \<in> set (matcher ml inp (Rep 0 (dec_max mx) g r) y)"
          by (subst (asm) matcher_Rep) (auto simp: Let_def split: if_splits)
        then have b1: "p < fst y \<and> fst y \<le> length inp" by auto
        from 11(4)[OF nz False y(1) y(2)] b1 have "fst y \<le> fst x \<and> fst x \<le> length inp" by simp
        with b1 show ?thesis by simp
      qed
    qed
  qed
qed (auto split: if_splits list.splits option.splits)

subsection \<open>Matches and the string methods that take a regular expression\<close>

record match =
  m_index :: nat
  m_end :: nat
  m_groups :: "string option list"

text \<open>
  \<open>m_groups\<close> is the match array of JavaScript: the matched text at index 0, then the
  text of each capturing group, \<open>None\<close> for a group that did not take part.
\<close>

definition ngroups :: "rx \<Rightarrow> nat" where
  "ngroups r = fold max (grps r) 0"

definition exec_at :: "bool \<Rightarrow> rx \<Rightarrow> string \<Rightarrow> nat \<Rightarrow> match option" where
  "exec_at ml r s p =
     (case matcher ml s r (p, \<lambda>_. None) of
        [] \<Rightarrow> None
      | (q, c) # _ \<Rightarrow>
          Some \<lparr>m_index = p, m_end = q,
                m_groups = Some (slice s p q) #
                  map (\<lambda>i. map_option (\<lambda>(a, b). slice s a b) (c i)) [1..<Suc (ngroups r)]\<rparr>)"

function exec_from :: "bool \<Rightarrow> rx \<Rightarrow> string \<Rightarrow> nat \<Rightarrow> match option" where
  "exec_from ml r s i =
     (if length s < i then None
      else case exec_at ml r s i of Some m \<Rightarrow> Some m | None \<Rightarrow> exec_from ml r s (Suc i))"
  by pat_completeness auto
termination
  by (relation "measure (\<lambda>(ml, r, s, i). Suc (length s) - i)") auto

declare exec_from.simps [simp del]

lemma exec_at_bounds:
  "exec_at ml r s p = Some m \<Longrightarrow> p \<le> length s \<Longrightarrow> m_index m = p \<and> p \<le> m_end m \<and> m_end m \<le> length s"
proof -
  assume a: "exec_at ml r s p = Some m" and b: "p \<le> length s"
  from a obtain q c rest where matcher: "matcher ml s r (p, \<lambda>_. None) = (q, c) # rest"
    and m: "m_index m = p" "m_end m = q"
    by (auto simp: exec_at_def split: list.splits)
  from matcher have "(q, c) \<in> set (matcher ml s r (p, \<lambda>_. None))" by simp
  from matcher_bounds[OF this] b m show ?thesis by simp
qed

lemma exec_from_bounds:
  "exec_from ml r s i = Some m \<Longrightarrow> i \<le> m_index m \<and> m_index m \<le> m_end m \<and> m_end m \<le> length s"
proof (induction ml r s i rule: exec_from.induct)
  case (1 ml r s i)
  show ?case
  proof (cases "exec_at ml r s i")
    case None
    with 1 show ?thesis
      by (subst (asm) (2) exec_from.simps) (fastforce split: if_splits)
  next
    case (Some m')
    with 1(2) have "m' = m" "i \<le> length s"
      by (subst (asm) exec_from.simps, simp split: if_splits)+
    with Some exec_at_bounds[of ml r s i m] show ?thesis by simp
  qed
qed

lemma clear_caps_Nil [simp]: "clear_caps [] c = c"
  by (simp add: clear_caps_def)

subsection \<open>The matcher with continuations\<close>

text \<open>
  The same matcher in the form the ECMAScript specification gives it: a pattern is matched
  against the rest of the input and calls a continuation with the state it reaches, so
  that the first match is found without listing the others. A state holds the position,
  the character before it and the input from it on. Lemma \<open>fm_matcher\<close> shows that
  \<open>fm\<close> returns the first element of the list \<open>matcher\<close> computes; \<open>exec_from\<close> is
  evaluated through it (lemma \<open>exec_from_code\<close>).
\<close>

type_synonym fstate = "nat \<times> char option \<times> string \<times> caps"

fun first_some :: "('a \<Rightarrow> 'b option) \<Rightarrow> 'a list \<Rightarrow> 'b option" where
  "first_some f [] = None"
| "first_some f (x # xs) = (case f x of Some y \<Rightarrow> Some y | None \<Rightarrow> first_some f xs)"

fun set_cap :: "nat \<Rightarrow> nat \<Rightarrow> fstate \<Rightarrow> fstate" where
  "set_cap i p (q, prev, rest, c) = (q, prev, rest, c(i := Some (p, q)))"

fun low :: "fstate \<Rightarrow> mstate" where
  "low (p, prev, rest, c) = (p, c)"

fun shorter :: "fstate \<Rightarrow> string \<Rightarrow> bool" where
  "shorter (q, prev, rest', c) rest = (length rest' < length rest)"

fun rep_cls :: "(char \<Rightarrow> bool) \<Rightarrow> bool \<Rightarrow> nat \<Rightarrow> nat option \<Rightarrow> fstate \<Rightarrow> (fstate \<Rightarrow> mstate option) \<Rightarrow> mstate option" where
  "rep_cls P g mn mx (p, prev, [], c) k = (if mx = Some 0 \<or> mn = 0 then k (p, prev, [], c) else None)"
| "rep_cls P g mn mx (p, prev, x # xs, c) k =
     (if mx = Some 0 then k (p, prev, x # xs, c)
      else if 0 < mn then
        (if P x then rep_cls P g (mn - 1) (dec_max mx) (Suc p, Some x, xs, c) k else None)
      else if g then
        (case (if P x then rep_cls P g 0 (dec_max mx) (Suc p, Some x, xs, c) k else None) of
           Some y \<Rightarrow> Some y
         | None \<Rightarrow> k (p, prev, x # xs, c))
      else
        (case k (p, prev, x # xs, c) of
           Some y \<Rightarrow> Some y
         | None \<Rightarrow> if P x then rep_cls P g 0 (dec_max mx) (Suc p, Some x, xs, c) k else None))"

function (sequential) fm :: "bool \<Rightarrow> string \<Rightarrow> rx \<Rightarrow> fstate \<Rightarrow> (fstate \<Rightarrow> mstate option) \<Rightarrow> mstate option" where
  "fm ml inp (Cls P) (p, prev, rest, c) k =
     (case rest of [] \<Rightarrow> None | x # xs \<Rightarrow> if P x then k (Suc p, Some x, xs, c) else None)"
| "fm ml inp Eps s k = k s"
| "fm ml inp (Seq a b) s k = fm ml inp a s (\<lambda>s'. fm ml inp b s' k)"
| "fm ml inp (Alt a b) s k = (case fm ml inp a s k of Some y \<Rightarrow> Some y | None \<Rightarrow> fm ml inp b s k)"
| "fm ml inp (Grp i r) (p, prev, rest, c) k = fm ml inp r (p, prev, rest, c) (\<lambda>s'. k (set_cap i p s'))"
| "fm ml inp Bol (p, prev, rest, c) k =
     (case prev of
        None \<Rightarrow> k (p, prev, rest, c)
      | Some x \<Rightarrow> if ml \<and> line_terminator x then k (p, prev, rest, c) else None)"
| "fm ml inp Eol (p, prev, rest, c) k =
     (case rest of
        [] \<Rightarrow> k (p, prev, rest, c)
      | x # xs \<Rightarrow> if ml \<and> line_terminator x then k (p, prev, rest, c) else None)"
| "fm ml inp (Ahead r) (p, prev, rest, c) k =
     (case fm ml inp r (p, prev, rest, c) (\<lambda>s'. Some (low s')) of
        None \<Rightarrow> None
      | Some (q, c') \<Rightarrow> k (p, prev, rest, c'))"
| "fm ml inp (NAhead r) s k =
     (case fm ml inp r s (\<lambda>s'. Some (low s')) of None \<Rightarrow> k s | Some y \<Rightarrow> None)"
| "fm ml inp (Bref i) (p, prev, rest, c) k =
     (case c i of
        None \<Rightarrow> k (p, prev, rest, c)
      | Some (a, b) \<Rightarrow>
          if b - a \<le> length rest \<and> take (b - a) rest = slice inp a b
          then k (p + (b - a), (if b - a = 0 then prev else Some (rest ! (b - a - 1))), drop (b - a) rest, c)
          else None)"
| "fm ml inp (Rep mn mx g (Cls P)) s k = rep_cls P g mn mx s k"
| "fm ml inp (Rep mn mx g r) (p, prev, rest, c) k =
     (if mx = Some 0 then k (p, prev, rest, c)
      else if 0 < mn then
        fm ml inp r (p, prev, rest, clear_caps (grps r) c)
          (\<lambda>s'. fm ml inp (Rep (mn - 1) (dec_max mx) g r) s' k)
      else if g then
        (case fm ml inp r (p, prev, rest, clear_caps (grps r) c)
                (\<lambda>s'. if shorter s' rest then fm ml inp (Rep 0 (dec_max mx) g r) s' k else None) of
           Some y \<Rightarrow> Some y
         | None \<Rightarrow> k (p, prev, rest, c))
      else
        (case k (p, prev, rest, c) of
           Some y \<Rightarrow> Some y
         | None \<Rightarrow>
             fm ml inp r (p, prev, rest, clear_caps (grps r) c)
               (\<lambda>s'. if shorter s' rest then fm ml inp (Rep 0 (dec_max mx) g r) s' k else None)))"
  by pat_completeness auto
termination
  apply (relation "measures [\<lambda>(ml, inp, r, s, k). rsize r,
                             \<lambda>(ml, inp, r, s, k). (case r of Rep mn mx g r' \<Rightarrow> mn | _ \<Rightarrow> 0),
                             \<lambda>(ml, inp, r, (p, prev, rest, c), k). length rest]")
  apply auto
  done


declare fm.simps [simp del]
declare rep_cls.simps [simp del]

fun prev_at :: "string \<Rightarrow> nat \<Rightarrow> char option" where
  "prev_at inp 0 = None"
| "prev_at inp (Suc q) = Some (inp ! q)"

fun lift :: "string \<Rightarrow> mstate \<Rightarrow> fstate" where
  "lift inp (q, c) = (q, prev_at inp q, drop q inp, c)"

lemma low_lift [simp]: "low (lift inp x) = x"
  by (cases x) simp

lemma first_some_append [simp]:
  "first_some f (xs @ ys) = (case first_some f xs of Some y \<Rightarrow> Some y | None \<Rightarrow> first_some f ys)"
  by (induction xs) (auto split: option.splits)

lemma first_some_concat_map:
  "first_some f (concat (map h xs)) = first_some (\<lambda>x. first_some f (h x)) xs"
  by (induction xs) (auto split: option.splits)

lemma first_some_cong:
  "(\<And>x. x \<in> set xs \<Longrightarrow> f x = h x) \<Longrightarrow> first_some f xs = first_some h xs"
  by (induction xs) (auto split: option.splits)

lemma first_some_map:
  "first_some f (map h xs) = first_some (\<lambda>x. f (h x)) xs"
  by (induction xs) (auto split: option.splits)

lemma first_some_filter:
  "first_some f (filter Q xs) = first_some (\<lambda>x. if Q x then f x else None) xs"
  by (induction xs) (auto split: option.splits)

lemma lift_at:
  "p < length inp \<Longrightarrow> lift inp (p, c) = (p, prev_at inp p, inp ! p # drop (Suc p) inp, c)"
  by (simp add: Cons_nth_drop_Suc)

lemma lift_end:
  "length inp \<le> p \<Longrightarrow> lift inp (p, c) = (p, prev_at inp p, [], c)"
  by simp

lemma lift_Suc:
  "lift inp (Suc p, c) = (Suc p, Some (inp ! p), drop (Suc p) inp, c)"
  by simp

declare lift.simps [simp del]

lemma rep_cls_matcher:
  "p \<le> length inp \<Longrightarrow>
   rep_cls P g mn mx (lift inp (p, c)) k =
   first_some (\<lambda>x. k (lift inp x)) (matcher ml inp (Rep mn mx g (Cls P)) (p, c))"
proof (induction "length inp - p" arbitrary: p mn mx)
  case 0
  then have n: "\<not> p < length inp" "length inp \<le> p" by simp_all
  have L: "rep_cls P g mn mx (lift inp (p, c)) k =
      (if mx = Some 0 \<or> mn = 0 then k (lift inp (p, c)) else None)"
    by (simp only: lift_end[OF n(2)] rep_cls.simps)
  have R: "matcher ml inp (Rep mn mx g (Cls P)) (p, c) =
      (if mx = Some 0 \<or> mn = 0 then [(p, c)] else [])"
    by (subst matcher_Rep) (use n in \<open>simp add: Let_def\<close>)
  show ?case unfolding L R by (simp split: option.splits)
next
  case (Suc n)
  then have lt: "p < length inp" by simp
  have ih: "\<And>mn mx. rep_cls P g mn mx (lift inp (Suc p, c)) k =
      first_some (\<lambda>x. k (lift inp x)) (matcher ml inp (Rep mn mx g (Cls P)) (Suc p, c))"
    using Suc(1)[of "Suc p"] Suc(2) lt by simp
  have L: "rep_cls P g mn mx (lift inp (p, c)) k =
     (if mx = Some 0 then k (lift inp (p, c))
      else if 0 < mn then
        (if P (inp ! p) then rep_cls P g (mn - 1) (dec_max mx) (lift inp (Suc p, c)) k else None)
      else if g then
        (case (if P (inp ! p) then rep_cls P g 0 (dec_max mx) (lift inp (Suc p, c)) k else None) of
           Some y \<Rightarrow> Some y
         | None \<Rightarrow> k (lift inp (p, c)))
      else
        (case k (lift inp (p, c)) of
           Some y \<Rightarrow> Some y
         | None \<Rightarrow> if P (inp ! p) then rep_cls P g 0 (dec_max mx) (lift inp (Suc p, c)) k else None))"
    by (simp only: lift_at[OF lt] lift_Suc rep_cls.simps)
  have R: "matcher ml inp (Rep mn mx g (Cls P)) (p, c) =
     (if mx = Some 0 then [(p, c)]
      else if 0 < mn then
        (if P (inp ! p) then matcher ml inp (Rep (mn - 1) (dec_max mx) g (Cls P)) (Suc p, c) else [])
      else if g then
        (if P (inp ! p) then matcher ml inp (Rep 0 (dec_max mx) g (Cls P)) (Suc p, c) else []) @ [(p, c)]
      else (p, c) # (if P (inp ! p) then matcher ml inp (Rep 0 (dec_max mx) g (Cls P)) (Suc p, c) else []))"
    by (subst matcher_Rep) (use lt in \<open>simp add: Let_def\<close>)
  show ?case unfolding L R using ih by (auto split: option.splits)
qed


lemma fm_Rep_general:
  "\<forall>P. r \<noteq> Cls P \<Longrightarrow>
   fm ml inp (Rep mn mx g r) (p, prev, rest, c) k =
     (if mx = Some 0 then k (p, prev, rest, c)
      else if 0 < mn then
        fm ml inp r (p, prev, rest, clear_caps (grps r) c)
          (\<lambda>s'. fm ml inp (Rep (mn - 1) (dec_max mx) g r) s' k)
      else if g then
        (case fm ml inp r (p, prev, rest, clear_caps (grps r) c)
                (\<lambda>s'. if shorter s' rest then fm ml inp (Rep 0 (dec_max mx) g r) s' k else None) of
           Some y \<Rightarrow> Some y
         | None \<Rightarrow> k (p, prev, rest, c))
      else
        (case k (p, prev, rest, c) of
           Some y \<Rightarrow> Some y
         | None \<Rightarrow>
             fm ml inp r (p, prev, rest, clear_caps (grps r) c)
               (\<lambda>s'. if shorter s' rest then fm ml inp (Rep 0 (dec_max mx) g r) s' k else None)))"
  by (cases r; hypsubst; simp add: fm.simps)

lemma first_some_Some: "first_some Some xs = (case xs of [] \<Rightarrow> None | x # _ \<Rightarrow> Some x)"
  by (cases xs) simp_all

lemma set_cap_lift: "set_cap i p (lift inp (q, c)) = lift inp (q, c(i := Some (p, q)))"
  by (simp add: lift.simps)

lemma shorter_lift:
  "p \<le> length inp \<Longrightarrow> shorter (lift inp (q, c)) (drop p inp) = (p < q \<and> q \<le> length inp \<or> (length inp < q \<and> p < length inp))"
  by (auto simp: lift.simps)

lemma fm_matcher:
  "fst st \<le> length inp \<Longrightarrow>
   fm ml inp r (lift inp st) k = first_some (\<lambda>x. k (lift inp x)) (matcher ml inp r st)"
proof (induction ml inp r st arbitrary: k rule: matcher.induct)
  case (1 ml inp P p c)
  show ?case
  proof (cases "p < length inp")
    case True
    then show ?thesis
      by (simp add: lift_at fm.simps lift_Suc[symmetric] split: option.splits)
  next
    case False
    then show ?thesis
      by (simp add: lift_end fm.simps)
  qed
next
  case (2 ml inp st)
  show ?case by (simp add: fm.simps split: option.splits)
next
  case (3 ml inp a b st)
  have "fm ml inp (Seq a b) (lift inp st) k = fm ml inp a (lift inp st) (\<lambda>s'. fm ml inp b s' k)"
    by (simp add: fm.simps)
  also have "\<dots> = first_some (\<lambda>x. fm ml inp b (lift inp x) k) (matcher ml inp a st)"
    using 3(1)[OF 3(3)] .
  also have "\<dots> = first_some (\<lambda>x. first_some (\<lambda>y. k (lift inp y)) (matcher ml inp b x)) (matcher ml inp a st)"
  proof (rule first_some_cong)
    fix x assume x: "x \<in> set (matcher ml inp a st)"
    from matcher_bounds[OF x 3(3)] have "fst x \<le> length inp" by simp
    from 3(2)[OF x this] show "fm ml inp b (lift inp x) k = first_some (\<lambda>y. k (lift inp y)) (matcher ml inp b x)" .
  qed
  also have "\<dots> = first_some (\<lambda>y. k (lift inp y)) (matcher ml inp (Seq a b) st)"
    by (simp add: first_some_concat_map)
  finally show ?case .
next
  case (4 ml inp a b st)
  from 4(1)[OF 4(3)] 4(2)[OF 4(3)] show ?case
    by (simp add: fm.simps split: option.splits)
next
  case (5 ml inp i r p c)
  have "fm ml inp (Grp i r) (lift inp (p, c)) k = fm ml inp r (lift inp (p, c)) (\<lambda>s'. k (set_cap i p s'))"
    by (simp add: lift.simps fm.simps)
  also have "\<dots> = first_some (\<lambda>x. k (set_cap i p (lift inp x))) (matcher ml inp r (p, c))"
    using 5(1)[OF 5(2)] .
  also have "\<dots> = first_some (\<lambda>y. k (lift inp y)) (matcher ml inp (Grp i r) (p, c))"
    by (simp add: first_some_map case_prod_unfold) (rule first_some_cong, simp add: set_cap_lift[symmetric] split: prod.splits)
  finally show ?case .
next
  case (6 ml inp p c)
  then show ?case
    by (cases p) (auto simp: lift.simps fm.simps split: option.splits)
next
  case (7 ml inp p c)
  show ?case
  proof (cases "p < length inp")
    case True
    have "fm ml inp Eol (lift inp (p, c)) k =
          (if ml \<and> line_terminator (inp ! p) then k (lift inp (p, c)) else None)"
      by (subst (1 2) lift_at[OF True]) (simp add: fm.simps)
    with True show ?thesis by (simp split: option.splits)
  next
    case False
    with 7 have pl: "p = length inp" "length inp \<le> p" by simp_all
    have "fm ml inp Eol (lift inp (p, c)) k = k (lift inp (p, c))"
      by (subst (1 2) lift_end[OF pl(2)]) (simp add: fm.simps)
    with pl show ?thesis by (simp split: option.splits)
  qed
next
  case (8 ml inp r p c)
  have "fm ml inp r (lift inp (p, c)) (\<lambda>s'. Some (low s')) = first_some Some (matcher ml inp r (p, c))"
    using 8(1)[OF 8(2), of "\<lambda>s'. Some (low s')"] by simp
  then show ?case
    by (auto simp add: lift.simps fm.simps first_some_Some split: list.splits option.splits)
next
  case (9 ml inp r p c)
  have "fm ml inp r (lift inp (p, c)) (\<lambda>s'. Some (low s')) = first_some Some (matcher ml inp r (p, c))"
    using 9(1)[OF 9(2), of "\<lambda>s'. Some (low s')"] by simp
  then show ?case
    by (auto simp add: fm.simps first_some_Some split: list.splits option.splits)
next
  case (10 ml inp i p c)
  show ?case
  proof (cases "c i")
    case None
    then show ?thesis by (simp add: lift.simps fm.simps split: option.splits)
  next
    case (Some ab)
    obtain a b where ab: "ab = (a, b)" by (cases ab)
    let ?d = "b - a"
    have cond: "(?d \<le> length (drop p inp) \<and> take ?d (drop p inp) = slice inp a b) =
                (p + ?d \<le> length inp \<and> slice inp p (p + ?d) = slice inp a b)"
      using 10 by (auto simp: slice_def)
    have st: "p + ?d \<le> length inp \<Longrightarrow>
        (p + ?d, (if ?d = 0 then prev_at inp p else Some (drop p inp ! (?d - 1))), drop ?d (drop p inp), c) =
        lift inp (p + ?d, c)"
    proof (cases "?d = 0")
      case True
      then show ?thesis by (simp add: lift.simps)
    next
      case False
      assume le: "p + ?d \<le> length inp"
      from False obtain j where j: "p + ?d = Suc j" "j = p + (?d - 1)" by (cases "p + ?d") auto
      with le False show ?thesis by (simp add: lift.simps add.commute)
    qed
    show ?thesis
      using Some ab cond st
      by (simp add: lift.simps[of inp p c] fm.simps split: option.splits)
  qed
next
  case (11 ml inp mn mx g r p c)
  show ?case
  proof (cases "\<exists>P. r = Cls P")
    case True
    then obtain P where "r = Cls P" by blast
    with 11(5) show ?thesis
      by (simp add: fm.simps rep_cls_matcher)
  next
    case False
    then have nc: "\<forall>P. r \<noteq> Cls P" by blast
    let ?K = "\<lambda>x. k (lift inp x)"
    let ?c = "clear_caps (grps r) c"
    have le: "p \<le> length inp" using 11(5) by simp
    show ?thesis
    proof (cases "mx = Some 0")
      case True
      then show ?thesis
        by (subst matcher_Rep) (simp add: lift.simps[of inp p c] fm_Rep_general[OF nc] split: option.splits)
    next
      case nz: False
      show ?thesis
      proof (cases "0 < mn")
        case True
        have "fm ml inp (Rep mn mx g r) (lift inp (p, c)) k =
              fm ml inp r (lift inp (p, ?c)) (\<lambda>s'. fm ml inp (Rep (mn - 1) (dec_max mx) g r) s' k)"
          using nz True by (simp add: lift.simps fm_Rep_general[OF nc])
        also have "\<dots> = first_some (\<lambda>x. fm ml inp (Rep (mn - 1) (dec_max mx) g r) (lift inp x) k)
                             (matcher ml inp r (p, ?c))"
          using 11(1)[OF nz True] le by simp
        also have "\<dots> = first_some (\<lambda>x. first_some ?K (matcher ml inp (Rep (mn - 1) (dec_max mx) g r) x))
                             (matcher ml inp r (p, ?c))"
        proof (rule first_some_cong)
          fix x assume x: "x \<in> set (matcher ml inp r (p, ?c))"
          from matcher_bounds[OF x] le have "fst x \<le> length inp" by simp
          from 11(2)[OF nz True x this]
          show "fm ml inp (Rep (mn - 1) (dec_max mx) g r) (lift inp x) k =
                first_some ?K (matcher ml inp (Rep (mn - 1) (dec_max mx) g r) x)" .
        qed
        also have "\<dots> = first_some ?K (matcher ml inp (Rep mn mx g r) (p, c))"
          using nz True by (subst matcher_Rep) (simp add: first_some_concat_map)
        finally show ?thesis .
      next
        case False
        let ?Q = "\<lambda>(q, c'). p < q \<and> q \<le> length inp"
        let ?more = "concat (map (matcher ml inp (Rep 0 (dec_max mx) g r)) (filter ?Q (matcher ml inp r (p, ?c))))"
        have "fm ml inp r (lift inp (p, ?c))
                (\<lambda>s'. if shorter s' (drop p inp) then fm ml inp (Rep 0 (dec_max mx) g r) s' k else None) =
              first_some (\<lambda>x. if shorter (lift inp x) (drop p inp)
                               then fm ml inp (Rep 0 (dec_max mx) g r) (lift inp x) k else None)
                (matcher ml inp r (p, ?c))"
          using 11(3)[OF nz False] le by simp
        also have "\<dots> = first_some (\<lambda>x. if ?Q x then first_some ?K (matcher ml inp (Rep 0 (dec_max mx) g r) x) else None)
                (matcher ml inp r (p, ?c))"
        proof (rule first_some_cong)
          fix x assume x: "x \<in> set (matcher ml inp r (p, ?c))"
          obtain q c' where xq: "x = (q, c')" by (cases x)
          from matcher_bounds[OF x] le xq have b: "p \<le> q" "q \<le> length inp" by simp_all
          have sh: "shorter (lift inp x) (drop p inp) = ?Q x"
            using b le xq by (auto simp: lift.simps)
          show "(if shorter (lift inp x) (drop p inp)
                 then fm ml inp (Rep 0 (dec_max mx) g r) (lift inp x) k else None) =
                (if ?Q x then first_some ?K (matcher ml inp (Rep 0 (dec_max mx) g r) x) else None)"
          proof (cases "?Q x")
            case True
            with x have "x \<in> set (filter ?Q (matcher ml inp r (p, ?c)))" by simp
            from 11(4)[OF nz False this] b xq True sh show ?thesis by simp
          next
            case False
            with sh show ?thesis by simp
          qed
        qed
        also have "\<dots> = first_some ?K ?more"
          by (simp add: first_some_concat_map first_some_filter)
        finally have more: "fm ml inp r (lift inp (p, ?c))
                (\<lambda>s'. if shorter s' (drop p inp) then fm ml inp (Rep 0 (dec_max mx) g r) s' k else None) =
                first_some ?K ?more" .
        have R: "matcher ml inp (Rep mn mx g r) (p, c) = (if g then ?more @ [(p, c)] else (p, c) # ?more)"
          using nz False by (subst matcher_Rep) (simp add: Let_def)
        have L: "fm ml inp (Rep mn mx g r) (lift inp (p, c)) k =
            (if g then (case first_some ?K ?more of Some y \<Rightarrow> Some y | None \<Rightarrow> k (lift inp (p, c)))
             else (case k (lift inp (p, c)) of Some y \<Rightarrow> Some y | None \<Rightarrow> first_some ?K ?more))"
          using nz False more by (simp add: lift.simps fm_Rep_general[OF nc] cong: option.case_cong)
        show ?thesis unfolding L R by (simp split: option.splits)
      qed
    qed
  qed
qed


definition mk_match :: "rx \<Rightarrow> string \<Rightarrow> nat \<Rightarrow> mstate \<Rightarrow> match" where
  "mk_match r s p x =
     \<lparr>m_index = p, m_end = fst x,
      m_groups = Some (slice s p (fst x)) #
        map (\<lambda>i. map_option (\<lambda>(a, b). slice s a b) (snd x i)) [1..<Suc (ngroups r)]\<rparr>"

fun scan :: "bool \<Rightarrow> rx \<Rightarrow> string \<Rightarrow> nat \<Rightarrow> char option \<Rightarrow> string \<Rightarrow> match option" where
  "scan ml r s p prev [] =
     map_option (mk_match r s p) (fm ml s r (p, prev, [], \<lambda>_. None) (\<lambda>s'. Some (low s')))"
| "scan ml r s p prev (x # xs) =
     (case fm ml s r (p, prev, x # xs, \<lambda>_. None) (\<lambda>s'. Some (low s')) of
        Some y \<Rightarrow> Some (mk_match r s p y)
      | None \<Rightarrow> scan ml r s (Suc p) (Some x) xs)"

lemma exec_at_fm:
  assumes "p \<le> length s"
  shows "exec_at ml r s p =
         map_option (mk_match r s p) (fm ml s r (lift s (p, \<lambda>_. None)) (\<lambda>s'. Some (low s')))"
proof -
  have "fm ml s r (lift s (p, \<lambda>_. None)) (\<lambda>s'. Some (low s')) =
        first_some Some (matcher ml s r (p, \<lambda>_. None))"
    using fm_matcher[of "(p, \<lambda>_. None)" s ml r "\<lambda>s'. Some (low s')"] assms by simp
  then show ?thesis
    by (auto simp: exec_at_def mk_match_def first_some_Some split: list.splits)
qed

lemma scan_exec_from:
  "p \<le> length s \<Longrightarrow> scan ml r s p (prev_at s p) (drop p s) = exec_from ml r s p"
proof (induction "length s - p" arbitrary: p)
  case 0
  then have p: "p = length s" by simp
  have "exec_from ml r s p = exec_at ml r s p"
    by (subst exec_from.simps, subst exec_from.simps) (simp add: p split: option.splits)
  with exec_at_fm[of p s ml r] p show ?case
    by (simp add: lift.simps)
next
  case (Suc n)
  then have lt: "p < length s" by simp
  from Suc(1)[of "Suc p"] Suc(2) lt
  have ih: "scan ml r s (Suc p) (Some (s ! p)) (drop (Suc p) s) = exec_from ml r s (Suc p)" by simp
  have d: "drop p s = s ! p # drop (Suc p) s" using lt by (simp add: Cons_nth_drop_Suc)
  have e: "exec_at ml r s p =
         map_option (mk_match r s p) (fm ml s r (p, prev_at s p, s ! p # drop (Suc p) s, \<lambda>_. None) (\<lambda>s'. Some (low s')))"
    using exec_at_fm[of p s ml r] lt by (simp add: lift_at)
  show ?case
    unfolding d
    by (subst exec_from.simps) (use lt ih e in \<open>auto split: option.splits\<close>)
qed

lemma exec_from_code [code]:
  "exec_from ml r s i = (if length s < i then None else scan ml r s i (prev_at s i) (drop i s))"
proof (cases "length s < i")
  case True
  then show ?thesis by (subst exec_from.simps) simp
next
  case False
  then show ?thesis by (simp add: scan_exec_from)
qed

datatype regexp = RegExp rx string

text \<open>\<open>RegExp r flags\<close> is the literal \<open>/r/flags\<close>; the source uses the flags \<open>g\<close> and \<open>m\<close>.\<close>

fun pattern :: "regexp \<Rightarrow> rx" where
  "pattern (RegExp r fl) = r"

fun multiline :: "regexp \<Rightarrow> bool" where
  "multiline (RegExp r fl) = (CHR ''m'' \<in> set fl)"

fun global :: "regexp \<Rightarrow> bool" where
  "global (RegExp r fl) = (CHR ''g'' \<in> set fl)"

function all_matches :: "bool \<Rightarrow> rx \<Rightarrow> string \<Rightarrow> nat \<Rightarrow> match list" where
  "all_matches ml r s i =
     (case exec_from ml r s i of
        None \<Rightarrow> []
      | Some m \<Rightarrow> m # all_matches ml r s (if m_end m = m_index m then Suc (m_end m) else m_end m))"
  by pat_completeness auto
termination
proof (relation "measure (\<lambda>(ml, r, s, i). Suc (length s) - i)", goal_cases)
  case 1
  show ?case by simp
next
  case (2 ml r s i m)
  from exec_from_bounds[OF 2] show ?case by auto
qed

declare all_matches.simps [simp del]

text \<open>
  \<open>matches_of re s\<close>: the matches a call of \<open>s.replace(re, ...)\<close> replaces, all of them
  (found from where the previous one ended, one further after an empty match) under the
  flag \<open>g\<close>, the first one otherwise.
\<close>

definition matches_of :: "regexp \<Rightarrow> string \<Rightarrow> match list" where
  "matches_of re s =
     (if global re then all_matches (multiline re) (pattern re) s 0
      else case exec_from (multiline re) (pattern re) s 0 of None \<Rightarrow> [] | Some m \<Rightarrow> [m])"

fun splice :: "string \<Rightarrow> nat \<Rightarrow> (match \<times> string) list \<Rightarrow> string" where
  "splice s i [] = drop i s"
| "splice s i ((m, t) # xs) = slice s i (m_index m) @ t @ splice s (m_end m) xs"

definition js_replace :: "regexp \<Rightarrow> (match \<Rightarrow> string) \<Rightarrow> string \<Rightarrow> string" where
  "js_replace re f s = splice s 0 (map (\<lambda>m. (m, f m)) (matches_of re s))"

definition js_search :: "regexp \<Rightarrow> string \<Rightarrow> nat option" where
  "js_search re s = map_option m_index (exec_from (multiline re) (pattern re) s 0)"

definition js_test :: "regexp \<Rightarrow> string \<Rightarrow> bool" where
  "js_test re s = (exec_from (multiline re) (pattern re) s 0 \<noteq> None)"

definition js_match :: "regexp \<Rightarrow> string \<Rightarrow> match option" where
  "js_match re s = exec_from (multiline re) (pattern re) s 0"

definition whole :: "match \<Rightarrow> string" where
  "whole m = (case m_groups m of Some w # _ \<Rightarrow> w | _ \<Rightarrow> [])"

definition grp :: "match \<Rightarrow> nat \<Rightarrow> string option" where
  "grp m i = (if i < length (m_groups m) then m_groups m ! i else None)"

text \<open>
  \<open>s.split(re)\<close> for a pattern without capturing groups (the only one the source splits
  on): the pieces between the matches, a match that ends where the previous piece ended
  being skipped.
\<close>

function split_loop :: "bool \<Rightarrow> rx \<Rightarrow> string \<Rightarrow> nat \<Rightarrow> nat \<Rightarrow> string list" where
  "split_loop ml r s p q =
     (if q < length s then
        (case exec_at ml r s q of
           None \<Rightarrow> split_loop ml r s p (Suc q)
         | Some m \<Rightarrow>
             (let e = min (m_end m) (length s)
              in if e = p then split_loop ml r s p (Suc q)
                 else slice s p q # split_loop ml r s e e))
      else [slice s p (length s)])"
  by pat_completeness auto
termination
proof (relation "measures [\<lambda>(ml, r, s, p, q). length s - q,
                           \<lambda>(ml, r, s, p, q). if p = q then 0 else 1]", goal_cases)
  case 1
  show ?case by simp
next
  case (2 ml r s p q)
  then show ?case by auto
next
  case (3 ml r s p q m e)
  then show ?case by auto
next
  case (4 ml r s p q m e)
  from exec_at_bounds[OF 4(2)] 4(1) have "q \<le> m_end m" by simp
  with 4 show ?case by auto
qed

declare split_loop.simps [simp del]

definition js_split :: "regexp \<Rightarrow> string \<Rightarrow> string list" where
  "js_split re s =
     (if s = [] then (case exec_at (multiline re) (pattern re) s 0 of None \<Rightarrow> [s] | Some m \<Rightarrow> [])
      else split_loop (multiline re) (pattern re) s 0 0)"


text \<open>
  \<open>s.replace(t, u)\<close> for a string \<open>t\<close>: the first occurrence of \<open>t\<close> is replaced;
  \<open>index_of t s i\<close> is where it starts, counting from \<open>i\<close> at the head of \<open>s\<close>.
\<close>

fun index_of :: "string \<Rightarrow> string \<Rightarrow> nat \<Rightarrow> nat option" where
  "index_of t [] i = (if t = [] then Some i else None)"
| "index_of t (x # xs) i =
     (if take (length t) (x # xs) = t then Some i else index_of t xs (Suc i))"

definition js_replace_str :: "string \<Rightarrow> string \<Rightarrow> string \<Rightarrow> string" where
  "js_replace_str t u s =
     (case index_of t s 0 of
        None \<Rightarrow> s
      | Some i \<Rightarrow> take i s @ u @ drop (i + length t) s)"

definition is_space :: "char \<Rightarrow> bool" where
  "is_space c = (c \<in> set [CHR 0x09, CHR 0x0A, CHR 0x0B, CHR 0x0C, CHR 0x0D, CHR 0x20, CHR 0xA0])"

definition js_trim :: "string \<Rightarrow> string" where
  "js_trim s = rev (dropWhile is_space (rev (dropWhile is_space s)))"

fun join :: "string \<Rightarrow> string list \<Rightarrow> string" where
  "join sep [] = []"
| "join sep [x] = x"
| "join sep (x # y # xs) = x @ sep @ join sep (y # xs)"

subsection \<open>Writing patterns\<close>

abbreviation Star :: "rx \<Rightarrow> rx" where "Star r \<equiv> Rep 0 None True r"
abbreviation Plus :: "rx \<Rightarrow> rx" where "Plus r \<equiv> Rep 1 None True r"
abbreviation LazyPlus :: "rx \<Rightarrow> rx" where "LazyPlus r \<equiv> Rep 1 None False r"
abbreviation Opt :: "rx \<Rightarrow> rx" where "Opt r \<equiv> Rep 0 (Some 1) True r"

fun Seqs :: "rx list \<Rightarrow> rx" where
  "Seqs [] = Eps"
| "Seqs [r] = r"
| "Seqs (r # rs) = Seq r (Seqs rs)"

definition one_of :: "string \<Rightarrow> rx" where
  "one_of cs = Cls (\<lambda>c. c \<in> set cs)"

definition Str :: "string \<Rightarrow> rx" where
  "Str s = Seqs (map (\<lambda>c. one_of [c]) s)"

definition NL :: rx where "NL = one_of [CHR 0x0A]"
definition SP :: rx where "SP = one_of '' ''"
definition WS :: rx where "WS = one_of [CHR '' '', CHR 0x09]"
definition DIGIT :: rx where "DIGIT = one_of ''0123456789''"
definition NOT_CR :: rx where "NOT_CR = Cls (\<lambda>c. c \<noteq> CHR 0x0D)"
definition NON_SPACE :: rx where "NON_SPACE = Cls (\<lambda>c. \<not> is_space c)"
definition DOT :: rx where "DOT = Cls (\<lambda>c. \<not> line_terminator c)"

definition sentinel :: string where
  "sentinel = [CHR 0xA8, CHR ''0'']"

definition escape_marker :: string where
  "escape_marker = [CHR 0xA8, CHR ''A'']"

text \<open>\<open>([*+-]|\d+[.])\<close>, with the number of its group (0: the non-capturing form).\<close>

definition MARKER :: "nat \<Rightarrow> rx" where
  "MARKER i =
     (let r = Alt (one_of ''*+-'') (Seq (Plus DIGIT) (one_of ''.''))
      in if i = 0 then r else Grp i r)"

text \<open>
  The part the two boundary patterns share, groups numbered from \<open>k\<close>:
  \<^verbatim>\<open>(( {0,3}([*+-]|\d+[.])[ \t]+)[^\r]+?(S0|\n{2,}(?=\S)(?![ \t]*(?:[*+-]|\d+[.])[ \t]+)))\<close>
  (\<^verbatim>\<open>S0\<close>: the sentinel).
\<close>

definition listBlock :: "nat \<Rightarrow> rx" where
  "listBlock k =
     Grp k (Seqs [
       Grp (k + 1) (Seqs [Rep 0 (Some 3) True SP, MARKER (k + 2), Plus WS]),
       LazyPlus NOT_CR,
       Grp (k + 3) (Alt (Str sentinel)
         (Seqs [Rep 2 None True NL, Ahead NON_SPACE,
                NAhead (Seqs [Star WS, MARKER 0, Plus WS])]))])"

definition subListRgx :: regexp where
  "subListRgx = RegExp (Seq Bol (listBlock 1)) ''gm''"

definition mainListRgx :: regexp where
  "mainListRgx = RegExp (Seq (Grp 1 (Alt (Str [CHR 0x0A, CHR 0x0A]) (Seq Bol (Opt NL)))) (listBlock 2)) ''gm''"

definition listTypeRgx :: regexp where
  "listTypeRgx = RegExp (one_of ''*+-'') ''g''"

text \<open>\<^verbatim>\<open>/S0/\<close> and \<^verbatim>\<open>/S0/g\<close>\<close>

definition sentinelRgx :: regexp where
  "sentinelRgx = RegExp (Str sentinel) []"

definition sentinelRgxG :: regexp where
  "sentinelRgxG = RegExp (Str sentinel) ''g''"

text \<open>\<^verbatim>\<open>/^[ \t]*\[([xX ])]/m\<close>\<close>

definition checkboxRgx :: regexp where
  "checkboxRgx = RegExp (Seqs [Bol, Star WS, one_of ''['', Grp 1 (one_of ''xX ''), one_of '']'']) ''m''"

text \<open>\<^verbatim>\<open>/\n{2,}$/\<close>\<close>

definition trailingBlankRgx :: regexp where
  "trailingBlankRgx = RegExp (Seq (Rep 2 None True NL) Eol) []"

text \<open>
  \<^verbatim>\<open>/(\n)?(^ {0,3})([*+-]|\d+[.])[ \t]+((\[([xX ])])?[ \t]*[^\r]+?(\n{1,2}))(?=\n*(S0| {0,3}([*+-]|\d+[.])[ \t]+))/gm\<close>
  and, under \<open>disableForced4SpacesIndentedSublists\<close>, the same with \<^verbatim>\<open>\2\<close> for the
  \<^verbatim>\<open> {0,3}\<close> of the look-ahead.
\<close>

definition itemRgx :: "bool \<Rightarrow> regexp" where
  "itemRgx legacy =
     RegExp (Seqs [
       Opt (Grp 1 NL),
       Grp 2 (Seq Bol (Rep 0 (Some 3) True SP)),
       MARKER 3,
       Plus WS,
       Grp 4 (Seqs [
         Opt (Grp 5 (Seqs [one_of ''['', Grp 6 (one_of ''xX ''), one_of '']''])),
         Star WS,
         LazyPlus NOT_CR,
         Grp 7 (Rep 1 (Some 2) True NL)]),
       Ahead (Seq (Star NL)
         (Grp 8 (Alt (Str sentinel)
            (Seqs [if legacy then Bref 2 else Rep 0 (Some 3) True SP, MARKER 9, Plus WS]))))])
       ''gm''"

text \<open>\<^verbatim>\<open>/\n[ \t]*\n(?!S0)/\<close>\<close>

definition paragraphedRgx :: regexp where
  "paragraphedRgx = RegExp (Seqs [NL, Star WS, NL, NAhead (Str sentinel)]) []"

text \<open>\<^verbatim>\<open>/^([-*+]|\d\.)[ \t]+[\S\n ]*/g\<close>\<close>

definition escapeRgx :: regexp where
  "escapeRgx =
     RegExp (Seqs [Bol, Grp 1 (Alt (one_of ''-*+'') (Seq DIGIT (one_of ''.''))), Plus WS,
                   Star (Cls (\<lambda>c. c = CHR 0x0A \<or> c = CHR '' '' \<or> \<not> is_space c))]) ''g''"

text \<open>\<^verbatim>\<open>/^#+.+\n.+/\<close> and \<^verbatim>\<open>/^(#+.+)$/m\<close>\<close>

definition headingParaRgx :: regexp where
  "headingParaRgx = RegExp (Seqs [Bol, Plus (one_of ''#''), Plus DOT, NL, Plus DOT]) []"

definition headingLineRgx :: regexp where
  "headingLineRgx = RegExp (Seqs [Bol, Grp 1 (Seq (Plus (one_of ''#'')) (Plus DOT)), Eol]) ''m''"

text \<open>\<^verbatim>\<open>/\n{2,}/\<close>, \<^verbatim>\<open>/\n{2,}/g\<close>, \<^verbatim>\<open>/^\n+/g\<close>, \<^verbatim>\<open>/\n+$/g\<close>, \<^verbatim>\<open>/\n$/\<close>, \<^verbatim>\<open>/\n\n+/g\<close>\<close>

definition blankLineRgx :: regexp where
  "blankLineRgx = RegExp (Rep 2 None True NL) []"

definition blankLineRgxG :: regexp where
  "blankLineRgxG = RegExp (Rep 2 None True NL) ''g''"

definition leadingNewlinesRgx :: regexp where
  "leadingNewlinesRgx = RegExp (Seq Bol (Plus NL)) ''g''"

definition trailingNewlinesRgx :: regexp where
  "trailingNewlinesRgx = RegExp (Seq (Plus NL) Eol) ''g''"

definition finalNewlineRgx :: regexp where
  "finalNewlineRgx = RegExp (Seq NL Eol) []"

definition doubleNewlinesRgx :: regexp where
  "doubleNewlinesRgx = RegExp (Seqs [NL, Plus NL]) ''g''"

text \<open>\<^verbatim>\<open>/S([KG])(\d+)\1/g\<close> (\<^verbatim>\<open>S\<close>: the character U+00A8), \<^verbatim>\<open>/\S/\<close>, \<^verbatim>\<open>/^([ \t]*)/g\<close>, \<^verbatim>\<open>/\s+$/\<close>\<close>

definition htmlMarkerRgx :: regexp where
  "htmlMarkerRgx = RegExp (Seqs [one_of [CHR 0xA8], Grp 1 (one_of ''KG''), Grp 2 (Plus DIGIT), Bref 1]) ''g''"

definition nonSpaceRgx :: regexp where
  "nonSpaceRgx = RegExp NON_SPACE []"

definition leadingBlanksRgx :: regexp where
  "leadingBlanksRgx = RegExp (Seq Bol (Grp 1 (Star WS))) ''g''"

definition trailingSpaceRgx :: regexp where
  "trailingSpaceRgx = RegExp (Seq (Plus (Cls is_space)) Eol) []"

text \<open>\<^verbatim>\<open>/^ *(\d+)\./\<close>\<close>

definition startNumberRgx :: regexp where
  "startNumberRgx = RegExp (Seqs [Bol, Star SP, Grp 1 (Plus DIGIT), one_of ''.'']) []"

text \<open>
  \<^verbatim>\<open>/^ {0,3}\d+\.[ \t]/gm\<close> and \<^verbatim>\<open>/^ {0,3}[*+-][ \t]/gm\<close>; under
  \<open>disableForced4SpacesIndentedSublists\<close>, \<^verbatim>\<open>/^ ?\d+\.[ \t]/gm\<close> and \<^verbatim>\<open>/^ ?[*+-][ \t]/gm\<close>.
\<close>

definition olRgx :: "bool \<Rightarrow> regexp" where
  "olRgx legacy =
     RegExp (Seqs [Bol, if legacy then Opt SP else Rep 0 (Some 3) True SP, Plus DIGIT, one_of ''.'', WS]) ''gm''"

definition ulRgx :: "bool \<Rightarrow> regexp" where
  "ulRgx legacy =
     RegExp (Seqs [Bol, if legacy then Opt SP else Rep 0 (Some 3) True SP, one_of ''*+-'', WS]) ''gm''"


subsection \<open>Facts about the matcher and the patterns\<close>

lemma matcher_Rep_Cls:
  "x \<in> set (matcher ml inp (Rep mn mx g (Cls P)) (p, c)) \<Longrightarrow> (\<forall>k. mx = Some k \<longrightarrow> mn \<le> k) \<Longrightarrow>
     snd x = c \<and> p + mn \<le> fst x \<and> (\<forall>i. p \<le> i \<and> i < fst x \<longrightarrow> i < length inp \<and> P (inp ! i))
     \<and> (\<forall>k. mx = Some k \<longrightarrow> fst x \<le> p + k)"
proof (induction "mn + (length inp - p)" arbitrary: mn mx p x rule: less_induct)
  case less
  show ?case
  proof (cases "mx = Some 0")
    case True
    with less.prems show ?thesis by (auto simp add: matcher_Rep)
  next
    case nz: False
    show ?thesis
    proof (cases "0 < mn")
      case True
      with nz less.prems have ok: "p < length inp" "P (inp ! p)"
        and x: "x \<in> set (matcher ml inp (Rep (mn - 1) (dec_max mx) g (Cls P)) (Suc p, c))"
        by (auto simp: matcher_Rep[of _ _ mn] split: if_splits)
      from True ok have "(mn - 1) + (length inp - Suc p) < mn + (length inp - p)" by simp
      have "\<forall>k. dec_max mx = Some k \<longrightarrow> mn - 1 \<le> k" using less.prems(2) by (cases mx) auto
      from less.hyps[OF \<open>(mn - 1) + (length inp - Suc p) < mn + (length inp - p)\<close> x this] have ih: "snd x = c" "Suc p + (mn - 1) \<le> fst x"
        "\<forall>i. Suc p \<le> i \<and> i < fst x \<longrightarrow> i < length inp \<and> P (inp ! i)"
        "\<forall>k. dec_max mx = Some k \<longrightarrow> fst x \<le> Suc p + k" by auto
      have "\<forall>i. p \<le> i \<and> i < fst x \<longrightarrow> i < length inp \<and> P (inp ! i)"
      proof (intro allI impI)
        fix i assume "p \<le> i \<and> i < fst x"
        then consider "i = p" | "Suc p \<le> i \<and> i < fst x" by linarith
        then show "i < length inp \<and> P (inp ! i)" using ok ih(3) by cases auto
      qed
      moreover have "\<forall>k. mx = Some k \<longrightarrow> fst x \<le> p + k"
        using ih(4) nz by (cases mx) auto
      ultimately show ?thesis using ih(1,2) True by auto
    next
      case False
      show ?thesis
      proof (cases "x = (p, c)")
        case True
        with False show ?thesis by auto
      next
        case ne: False
        with nz False less.prems have ok: "p < length inp" "P (inp ! p)"
          and x: "x \<in> set (matcher ml inp (Rep 0 (dec_max mx) g (Cls P)) (Suc p, c))"
          by (subst (asm) matcher_Rep, auto simp: Let_def split: if_splits)+
        from False ok have "0 + (length inp - Suc p) < mn + (length inp - p)" by simp
        moreover have "\<forall>k. dec_max mx = Some k \<longrightarrow> 0 \<le> k" by simp
        ultimately have ih: "snd x = c" "Suc p \<le> fst x"
          "\<forall>i. Suc p \<le> i \<and> i < fst x \<longrightarrow> i < length inp \<and> P (inp ! i)"
          "\<forall>k. dec_max mx = Some k \<longrightarrow> fst x \<le> Suc p + k" using less.hyps[OF _ x] by auto
        have "\<forall>i. p \<le> i \<and> i < fst x \<longrightarrow> i < length inp \<and> P (inp ! i)"
        proof (intro allI impI)
          fix i assume "p \<le> i \<and> i < fst x"
          then consider "i = p" | "Suc p \<le> i \<and> i < fst x" by linarith
          then show "i < length inp \<and> P (inp ! i)" using ok ih(3) by cases auto
        qed
        moreover have "\<forall>k. mx = Some k \<longrightarrow> fst x \<le> p + k"
          using ih(4) nz by (cases mx) auto
        ultimately show ?thesis using ih(1,2) False by auto
      qed
    qed
  qed
qed


lemma js_search_0:
  assumes "js_search re s = Some 0"
  shows "matcher (multiline re) s (pattern re) (0, \<lambda>_. None) \<noteq> []"
proof
  assume e: "matcher (multiline re) s (pattern re) (0, \<lambda>_. None) = []"
  from assms obtain m where m: "exec_from (multiline re) (pattern re) s 0 = Some m" "m_index m = 0"
    by (auto simp: js_search_def)
  from e have "exec_at (multiline re) (pattern re) s 0 = None" by (simp add: exec_at_def)
  with m(1) have "exec_from (multiline re) (pattern re) s (Suc 0) = Some m"
    by (subst (asm) exec_from.simps) (simp split: if_splits)
  from exec_from_bounds[OF this] m(2) show False by simp
qed

lemma matcher_one_of:
  "x \<in> set (matcher ml inp (one_of cs) (p, c)) \<longleftrightarrow> x = (Suc p, c) \<and> p < length inp \<and> inp ! p \<in> set cs"
  by (auto simp: one_of_def)

lemma matcher_Rep_one_of:
  "x \<in> set (matcher ml inp (Rep mn mx g (one_of cs)) (p, c)) \<Longrightarrow> (\<forall>k. mx = Some k \<longrightarrow> mn \<le> k) \<Longrightarrow>
     snd x = c \<and> p + mn \<le> fst x \<and> (\<forall>i. p \<le> i \<and> i < fst x \<longrightarrow> i < length inp \<and> inp ! i \<in> set cs)
     \<and> (\<forall>k. mx = Some k \<longrightarrow> fst x \<le> p + k)"
  unfolding one_of_def by (rule matcher_Rep_Cls)

text \<open>A line that starts with spaces and then a character of \<open>cs\<close>.\<close>

definition indented :: "string \<Rightarrow> string \<Rightarrow> nat \<Rightarrow> bool" where
  "indented cs s p = (\<exists>k. p + k < length s \<and> (\<forall>i. p \<le> i \<and> i < p + k \<longrightarrow> s ! i = CHR '' '') \<and> s ! (p + k) \<in> set cs)"

lemma olRgx_indented:
  assumes "x \<in> set (matcher ml s (pattern (olRgx lg)) (p, c))"
  shows "indented ''0123456789'' s p"
proof -
  let ?sp = "if lg then Opt SP else Rep 0 (Some 3) True SP"
  from assms obtain y z where y: "y \<in> set (matcher ml s ?sp (p, c))"
    and z: "z \<in> set (matcher ml s (Plus DIGIT) y)"
    by (auto simp: olRgx_def split: if_splits)
  from y have y': "p \<le> fst y" "\<forall>i. p \<le> i \<and> i < fst y \<longrightarrow> s ! i = CHR '' ''"
    using matcher_Rep_one_of[of y ml s 0 "Some 1" True "'' ''" p c] matcher_Rep_one_of[of y ml s 0 "Some 3" True "'' ''" p c]
    by (auto simp: SP_def split: if_splits)
  from z have "fst y < fst z" "\<forall>i. fst y \<le> i \<and> i < fst z \<longrightarrow> i < length s \<and> s ! i \<in> set ''0123456789''"
    using matcher_Rep_one_of[of z ml s 1 None True "''0123456789''" "fst y" "snd y"] by (auto simp: DIGIT_def)
  then have "fst y < length s" "s ! fst y \<in> set ''0123456789''" by auto
  with y' show ?thesis unfolding indented_def
    by (intro exI[of _ "fst y - p"]) auto
qed

lemma ulRgx_indented:
  assumes "x \<in> set (matcher ml s (pattern (ulRgx lg)) (p, c))"
  shows "indented ''*+-'' s p"
proof -
  let ?sp = "if lg then Opt SP else Rep 0 (Some 3) True SP"
  from assms obtain y z where y: "y \<in> set (matcher ml s ?sp (p, c))"
    and z: "z \<in> set (matcher ml s (one_of ''*+-'') y)"
    by (auto simp: ulRgx_def split: if_splits)
  from y have y': "p \<le> fst y" "\<forall>i. p \<le> i \<and> i < fst y \<longrightarrow> s ! i = CHR '' ''"
    using matcher_Rep_one_of[of y ml s 0 "Some 1" True "'' ''" p c] matcher_Rep_one_of[of y ml s 0 "Some 3" True "'' ''" p c]
    by (auto simp: SP_def split: if_splits)
  from z have "fst y < length s" "s ! fst y \<in> set ''*+-''"
    using matcher_one_of[of z ml s "''*+-''" "fst y" "snd y"] by auto
  with y' show ?thesis unfolding indented_def
    by (intro exI[of _ "fst y - p"]) auto
qed

lemma indented_exclusive:
  assumes "indented cs s p" "indented ds s p" "CHR '' '' \<notin> set cs" "CHR '' '' \<notin> set ds"
  shows "set cs \<inter> set ds \<noteq> {}"
proof -
  from assms(1) obtain k where k: "p + k < length s" "\<forall>i. p \<le> i \<and> i < p + k \<longrightarrow> s ! i = CHR '' ''" "s ! (p + k) \<in> set cs"
    unfolding indented_def by blast
  from assms(2) obtain j where j: "p + j < length s" "\<forall>i. p \<le> i \<and> i < p + j \<longrightarrow> s ! i = CHR '' ''" "s ! (p + j) \<in> set ds"
    unfolding indented_def by blast
  have "k = j"
  proof (rule ccontr)
    assume "k \<noteq> j"
    then consider "k < j" | "j < k" by linarith
    then show False
    proof cases
      case 1
      with j(2) have "s ! (p + k) = CHR '' ''" by simp
      with k(3) assms(3) show False by simp
    next
      case 2
      with k(2) have "s ! (p + j) = CHR '' ''" by simp
      with j(3) assms(4) show False by simp
    qed
  qed
  with k(3) j(3) show ?thesis by auto
qed

lemma counter_exclusive:
  "js_search (olRgx lg) s = Some 0 \<Longrightarrow> js_search (ulRgx lg) s \<noteq> Some 0"
proof
  assume a: "js_search (olRgx lg) s = Some 0" and b: "js_search (ulRgx lg) s = Some 0"
  from js_search_0[OF a] obtain x where "x \<in> set (matcher (multiline (olRgx lg)) s (pattern (olRgx lg)) (0, \<lambda>_. None))"
    by (cases "matcher (multiline (olRgx lg)) s (pattern (olRgx lg)) (0, \<lambda>_. None)") auto
  from olRgx_indented[OF this] have 1: "indented ''0123456789'' s 0" .
  from js_search_0[OF b] obtain y where "y \<in> set (matcher (multiline (ulRgx lg)) s (pattern (ulRgx lg)) (0, \<lambda>_. None))"
    by (cases "matcher (multiline (ulRgx lg)) s (pattern (ulRgx lg)) (0, \<lambda>_. None)") auto
  from ulRgx_indented[OF this] have 2: "indented ''*+-'' s 0" .
  from indented_exclusive[OF 1 2] show False by simp
qed

section \<open>The list sub-parser\<close>

subsection \<open>Options, global state, events and collaborators\<close>

record options =
  tasklists :: bool
  moreStyling :: bool
  disableForced4SpacesIndentedSublists :: bool

text \<open>
  \<open>gListLevel\<close> is the nesting-depth counter of the conversion. \<open>gListLevelLog\<close> is a
  history variable: every value assigned to the counter, oldest first. The code has no
  such field; it is there to state what the counter does during a call.
\<close>

record globals =
  gListLevel :: int
  gListLevelLog :: "int list"

definition set_gListLevel :: "int \<Rightarrow> globals \<Rightarrow> globals" where
  "set_gListLevel v g = g\<lparr>gListLevel := v, gListLevelLog := gListLevelLog g @ [v]\<rparr>"

datatype attr_value = AStr string | ABool bool | AClasses "string list" | ANull

type_synonym attrs = "(string \<times> attr_value) list"

text \<open>Assignment to a property of an object: in place when the key exists, appended otherwise.\<close>

fun set_attr :: "string \<Rightarrow> attr_value \<Rightarrow> attrs \<Rightarrow> attrs" where
  "set_attr k v [] = [(k, v)]"
| "set_attr k v (p # ps) = (if fst p = k then (k, v) # ps else p # set_attr k v ps)"

text \<open>
  An event as its listeners see and leave it: name, input, output (\<open>None\<close>: \<open>null\<close>),
  matches and attributes. A match whose value is \<open>undefined\<close> is left out of \<open>ev_matches\<close>.
\<close>

record event =
  ev_name :: string
  ev_input :: string
  ev_output :: "string option"
  ev_matches :: "(string \<times> string) list"
  ev_attributes :: attrs

text \<open>
  What the sub-parser calls and this file does not define: the dispatch of events to the
  listeners of the converter, the helpers \<open>outdent\<close> and \<open>_populateAttributes\<close>, and the
  other sub-parsers. \<open>dispatchCapture\<close> is the dispatch of an event created with a
  \<open>null\<close> output (the \<open>onCapture\<close> events); \<open>dispatchText\<close> is the dispatch of an event
  whose output is set to a text (\<open>onStart\<close>, \<open>onEnd\<close>, \<open>onHash\<close>), from the event's name
  and that text to the output the listeners leave, taken to be a text again. The other
  sub-parsers are taken as functions from text to text.
\<close>

record env =
  opts :: options
  dispatchCapture :: "event \<Rightarrow> event"
  dispatchText :: "string \<Rightarrow> string \<Rightarrow> string"
  outdent :: "string \<Rightarrow> string"
  populateAttributes :: "attrs \<Rightarrow> string"
  githubCodeBlock :: "string \<Rightarrow> string"
  blockquote :: "string \<Rightarrow> string"
  heading :: "string \<Rightarrow> string"
  codeBlock :: "string \<Rightarrow> string"
  table :: "string \<Rightarrow> string"
  hashHTMLBlocks :: "string \<Rightarrow> string"
  paragraphs :: "string \<Rightarrow> string"
  spanGamut :: "string \<Rightarrow> string"

text \<open>
  A call either returns, or needs a deeper recursion than the fuel given to
  \<open>makehtml_list\<close> below allows, or stops with the \<open>TypeError\<close> JavaScript raises when a
  string method is called on \<open>undefined\<close>. The exception leaves the sub-parser at once:
  \<open>TypeError g\<close> holds the global state at the moment it is raised, which is the state
  the caller of the sub-parser finds.
\<close>

datatype 'a result = Done 'a | OutOfFuel | TypeError globals

fun and_then :: "'a result \<Rightarrow> ('a \<Rightarrow> 'b result) \<Rightarrow> 'b result" where
  "and_then (Done x) f = f x"
| "and_then OutOfFuel f = OutOfFuel"
| "and_then (TypeError g) f = TypeError g"

type_synonym 'a action = "globals \<Rightarrow> ('a \<times> globals) result"

text \<open>
  \<open>s.replace(re, callback)\<close> with a callback that reads and writes the global state: the
  callback is called for each match, in order, and the results are spliced into \<open>s\<close>.
\<close>

fun replace_each :: "(match \<Rightarrow> string action) \<Rightarrow> match list \<Rightarrow> ((match \<times> string) list) action" where
  "replace_each f [] g = Done ([], g)"
| "replace_each f (m # rest) g =
     and_then (f m g) (\<lambda>(t, g').
     and_then (replace_each f rest g') (\<lambda>(xs, g'').
     Done ((m, t) # xs, g'')))"

definition js_replaceM :: "regexp \<Rightarrow> (match \<Rightarrow> string action) \<Rightarrow> string \<Rightarrow> string action" where
  "js_replaceM re f s g =
     and_then (replace_each f (matches_of re s) g) (\<lambda>(xs, g'). Done (splice s 0 xs, g'))"

text \<open>\<open>x && x !== ''\<close> for the output of an event.\<close>

fun given :: "string option \<Rightarrow> bool" where
  "given None = False"
| "given (Some s) = (s \<noteq> [])"

fun text_of :: "string option \<Rightarrow> string" where
  "text_of None = []"
| "text_of (Some s) = s"

subsection \<open>processTaskListItem\<close>

definition checkboxStyle :: string where
  "checkboxStyle = ''margin: 0px 0.35em 0.25em -1.6em; vertical-align: middle;''"

definition checkbox :: "env \<Rightarrow> string \<Rightarrow> bool \<Rightarrow> match \<Rightarrow> string" where
  "checkbox e item checked m =
     (let attributes = [(''type'', AStr ''checkbox''), (''disabled'', ABool True),
                        (''style'', AStr checkboxStyle), (''checked'', ABool checked)];
          captureStartEvent = dispatchCapture e
            \<lparr>ev_name = ''makehtml.list.taskListItem.checkbox.onCapture'',
             ev_input = item, ev_output = None,
             ev_matches = [(''_wholeMatch'', item), (''_tasklistButton'', whole m)] @
                          (case grp m 1 of None \<Rightarrow> [] | Some checkedRaw \<Rightarrow> [(''_taksListButtonChecked'', checkedRaw)]),
             ev_attributes = attributes\<rparr>;
          otp = (if given (ev_output captureStartEvent) then text_of (ev_output captureStartEvent)
                 else ''<input'' @ populateAttributes e (ev_attributes captureStartEvent) @ ''>'')
      in dispatchText e ''makehtml.list.taskListItem.checkbox.onHash'' otp)"

definition processTaskListItem :: "env \<Rightarrow> string \<Rightarrow> bool \<Rightarrow> string" where
  "processTaskListItem e item checked = js_replace checkboxRgx (checkbox e item checked) item"

subsection \<open>processListItems\<close>

text \<open>The steps of the callback that renders one item, in the order of the source.\<close>

definition escapeGuard :: "string \<Rightarrow> string" where
  "escapeGuard item = js_replace escapeRgx (\<lambda>m. escape_marker @ whole m) item"

definition headingGuard :: "string \<Rightarrow> string" where
  "headingGuard item =
     (if js_test headingParaRgx item
      then js_replace headingLineRgx (\<lambda>m. text_of (grp m 1) @ [CHR 0x0A]) item
      else item)"

definition stripBlankLines :: "string \<Rightarrow> string" where
  "stripBlankLines item =
     js_replace trailingNewlinesRgx (\<lambda>m. []) (js_replace leadingNewlinesRgx (\<lambda>m. []) item)"

text \<open>The loop over \<open>grafs\<close>: what one element adds to \<open>grafsOut\<close>.\<close>

definition graf :: "env \<Rightarrow> string \<Rightarrow> string list" where
  "graf e str =
     (if js_search htmlMarkerRgx str \<noteq> None then [str]
      else if js_search nonSpaceRgx str \<noteq> None then
        [js_replace leadingBlanksRgx (\<lambda>m. ''<p>'') (spanGamut e str) @ ''</p>'']
      else [])"

definition wrapParagraphs :: "env \<Rightarrow> string \<Rightarrow> string" where
  "wrapParagraphs e item =
     (let item = stripBlankLines item;
          grafs = js_split blankLineRgxG item;
          grafsOut = concat (map (graf e) grafs);
          item = join [CHR 0x0A] grafsOut
      in stripBlankLines item)"

text \<open>
  The two branches of \<open>if (m1 || (item.search(/\n{2,}/) > -1))\<close>; \<open>list\<close> is the list
  sub-parser itself, \<open>showdown.subParser('makehtml.list')\<close>.
\<close>

definition looseItem :: "(string \<Rightarrow> string action) \<Rightarrow> env \<Rightarrow> string \<Rightarrow> string action" where
  "looseItem list e item g =
     and_then (list (heading e (blockquote e (githubCodeBlock e item))) g) (\<lambda>(item, g').
     Done (wrapParagraphs e (hashHTMLBlocks e (table e (codeBlock e item))), g'))"

definition tightItem :: "(string \<Rightarrow> string action) \<Rightarrow> env \<Rightarrow> bool \<Rightarrow> string \<Rightarrow> string action" where
  "tightItem list e isParagraphed item g =
     and_then (list item g) (\<lambda>(item, g').
     (let item = js_replace finalNewlineRgx (\<lambda>m. []) item;
          item = hashHTMLBlocks e item;
          item = js_replace doubleNewlinesRgx (\<lambda>m. [CHR 0x0A, CHR 0x0A]) item
      in Done (if isParagraphed then paragraphs e item else spanGamut e item, g')))"

text \<open>The \<open>else\<close> branch of \<open>if (captureStartEvent.output && captureStartEvent.output !== '')\<close>.\<close>

definition defaultItem ::
  "(string \<Rightarrow> string action) \<Rightarrow> env \<Rightarrow> bool \<Rightarrow> string option \<Rightarrow> bool \<Rightarrow> event \<Rightarrow> string action" where
  "defaultItem list e isParagraphed m1 checked captureStartEvent g =
     (let attributes = ev_attributes captureStartEvent
      in case map_of (ev_matches captureStartEvent) ''listItem'' of
           None \<Rightarrow> TypeError g
         | Some item \<Rightarrow>
             (let item = (if tasklists (opts e) then processTaskListItem e item checked else item);
                  item = escapeGuard item;
                  item = headingGuard item
              in and_then
                   (if given m1 \<or> js_search blankLineRgx item \<noteq> None
                    then looseItem list e item g
                    else tightItem list e isParagraphed item g) (\<lambda>(item, g').
                 (let item = js_replace_str escape_marker [] item
                  in Done (''<li'' @ populateAttributes e attributes @ ''>'' @ item @ ''</li>'' @ [CHR 0x0A], g')))))"

text \<open>
  The callback of \<open>listStr.replace(rgx, ...)\<close>; its arguments \<open>wholeMatch\<close>, \<open>m1\<close>,
  \<open>m4\<close>, \<open>taskbtn\<close> and \<open>checkedRaw\<close> are the groups 0, 1, 4, 5 and 6 of the match.
\<close>

definition listItem :: "(string \<Rightarrow> string action) \<Rightarrow> env \<Rightarrow> bool \<Rightarrow> match \<Rightarrow> string action" where
  "listItem list e isParagraphed m g =
     (case grp m 4 of
        None \<Rightarrow> TypeError g
      | Some m4 \<Rightarrow>
         (let wholeMatch = whole m; m1 = grp m 1; taskbtn = grp m 5; checkedRaw = grp m 6;
              item = outdent e m4;
              checked = (given checkedRaw \<and> js_trim (text_of checkedRaw) \<noteq> []);
              task = (given taskbtn \<and> tasklists (opts e));
              attributes =
                (if task then
                   [(''classes'', AClasses ([''task-list-item''] @
                       (if moreStyling (opts e) \<and> checked then [''task-list-item-complete''] else []))),
                    (''style'', AStr ''list-style-type: none;'')]
                 else []);
              eventName = (if task then ''makehtml.list.taskListItem'' else ''makehtml.list.listItem'');
              matches = [(''_wholeMatch'', wholeMatch), (''listItem'', item)] @
                (if task then [(''_taskListButton'', text_of taskbtn),
                               (''_taskListButtonChecked'', text_of checkedRaw)] else []);
              captureStartEvent = dispatchCapture e
                \<lparr>ev_name = eventName @ ''.onCapture'', ev_input = item, ev_output = None,
                 ev_matches = matches, ev_attributes = attributes\<rparr>
          in and_then
               (if given (ev_output captureStartEvent)
                then Done (text_of (ev_output captureStartEvent), g)
                else defaultItem list e isParagraphed m1 checked captureStartEvent g) (\<lambda>(item, g').
             Done (dispatchText e (eventName @ ''.onHash'') item, g'))))"

definition processListItems :: "(string \<Rightarrow> string action) \<Rightarrow> env \<Rightarrow> string \<Rightarrow> bool \<Rightarrow> string action" where
  "processListItems list e listStr trimTrailing g =
     (let g = set_gListLevel (gListLevel g + 1) g;
          listStr = js_replace trailingBlankRgx (\<lambda>m. [CHR 0x0A]) listStr;
          listStr = listStr @ sentinel;
          rgx = itemRgx (disableForced4SpacesIndentedSublists (opts e));
          isParagraphed = js_test paragraphedRgx listStr
      in and_then (js_replaceM rgx (listItem list e isParagraphed) listStr g) (\<lambda>(listStr, g).
         (let listStr = js_replace sentinelRgxG (\<lambda>m. []) listStr;
              g = set_gListLevel (gListLevel g - 1) g;
              listStr = (if trimTrailing then js_replace trailingSpaceRgx (\<lambda>m. []) listStr else listStr)
          in Done (listStr, g))))"


subsection \<open>styleStartNumber and parseConsecutiveLists\<close>

datatype list_type = UL | OL

fun tag :: "list_type \<Rightarrow> string" where
  "tag UL = ''ul''"
| "tag OL = ''ol''"

text \<open>\<open>(listType === 'ul') ? 'ol' : 'ul'\<close> and \<open>(listType === 'ul') ? olRgx : ulRgx\<close>\<close>

fun invert :: "list_type \<Rightarrow> list_type" where
  "invert UL = OL"
| "invert OL = UL"

fun counterRxg :: "env \<Rightarrow> list_type \<Rightarrow> regexp" where
  "counterRxg e UL = olRgx (disableForced4SpacesIndentedSublists (opts e))"
| "counterRxg e OL = ulRgx (disableForced4SpacesIndentedSublists (opts e))"

definition styleStartNumber :: "string \<Rightarrow> list_type \<Rightarrow> string option" where
  "styleStartNumber list listType =
     (if listType = OL then
        (case js_match startNumberRgx list of
           Some res \<Rightarrow> (case grp res 1 of Some n \<Rightarrow> if n \<noteq> ''1'' then Some n else None | None \<Rightarrow> None)
         | None \<Rightarrow> None)
      else None)"

fun start_value :: "string option \<Rightarrow> attr_value" where
  "start_value None = ANull"
| "start_value (Some n) = AStr n"

text \<open>
  \<open>'\n\n<' + listType + _populateAttributes(attrs) + '>\n' + items + '</' + listType + '>\n'\<close>
\<close>

definition listContainer :: "env \<Rightarrow> list_type \<Rightarrow> attrs \<Rightarrow> string \<Rightarrow> string" where
  "listContainer e listType attrs items =
     [CHR 0x0A, CHR 0x0A] @ ''<'' @ tag listType @ populateAttributes e attrs @ ''>'' @ [CHR 0x0A] @
     items @ ''</'' @ tag listType @ ''>'' @ [CHR 0x0A]"

text \<open>
  The inner function \<open>parseCL\<close>. The variables of the enclosing function it assigns to
  (\<open>listType\<close>, \<open>attrs\<close>, \<open>otp\<close>) are arguments, \<open>counterRxg\<close> is computed from
  \<open>listType\<close> as both assignments to it do, and \<open>pli\<close> is \<open>processListItems\<close>.
\<close>

function parseCL ::
  "(string \<Rightarrow> bool \<Rightarrow> string action) \<Rightarrow> env \<Rightarrow> string \<Rightarrow> bool \<Rightarrow>
   string \<Rightarrow> list_type \<Rightarrow> attrs \<Rightarrow> string \<Rightarrow> string action" where
  "parseCL pli e list trimTrailing txt listType attrs otp g =
     (let pos = js_search (counterRxg e listType) txt;
          attrs = set_attr ''start'' (start_value (styleStartNumber list listType)) attrs
      in case pos of
           Some pos \<Rightarrow>
             and_then (pli (take pos txt) trimTrailing g) (\<lambda>(items, g).
             parseCL pli e list trimTrailing (drop pos txt) (invert listType) attrs
               (otp @ listContainer e listType attrs items) g)
         | None \<Rightarrow>
             and_then (pli txt trimTrailing g) (\<lambda>(items, g).
             Done (otp @ listContainer e listType attrs items, g)))"
  by pat_completeness auto
termination
proof (relation "measure (\<lambda>(pli, e, list, trimTrailing, txt, listType, attrs, otp, g).
         2 * length txt + (if js_search (counterRxg e listType) txt = Some 0 then 1 else 0))", goal_cases)
  case 1
  show ?case by simp
next
  case (2 pli e list trimTrailing t listType attrs otp g pos attrs' pos' items g')
  then have s: "js_search (counterRxg e listType) t = Some pos'" by simp
  then obtain m where "exec_from (multiline (counterRxg e listType)) (pattern (counterRxg e listType)) t 0 = Some m"
    "m_index m = pos'" by (auto simp: js_search_def)
  from exec_from_bounds[OF this(1)] this(2) have le: "pos' \<le> length t" by simp
  show ?case
  proof (cases "pos' = 0")
    case True
    with s have "js_search (counterRxg e (invert listType)) t \<noteq> Some 0"
      using counter_exclusive by (cases listType) fastforce+
    with True s show ?thesis by simp
  next
    case False
    with le show ?thesis by auto
  qed
qed

declare parseCL.simps [simp del]

definition parseConsecutiveLists ::
  "(string \<Rightarrow> bool \<Rightarrow> string action) \<Rightarrow> env \<Rightarrow> string \<Rightarrow> list_type \<Rightarrow> bool \<Rightarrow> string action" where
  "parseConsecutiveLists pli e list listType trimTrailing g =
     (let captureStartEvent = dispatchCapture e
            \<lparr>ev_name = ''makehtml.list.onCapture'', ev_input = list, ev_output = None,
             ev_matches = [(''_wholeMatch'', list), (''list'', list)], ev_attributes = []\<rparr>;
          attributes = ev_attributes captureStartEvent
      in if given (ev_output captureStartEvent) then Done (text_of (ev_output captureStartEvent), g)
         else if js_search (counterRxg e listType) list \<noteq> None then
           parseCL pli e list trimTrailing list listType attributes [] g
         else
           (let attrs = set_attr ''start'' (start_value (styleStartNumber list listType)) attributes
            in and_then (pli list trimTrailing g) (\<lambda>(items, g).
               Done (listContainer e listType attrs items, g))))"

subsection \<open>The sub-parser makehtml.list\<close>

text \<open>\<open>(m.search(listTypeRgx) > -1) ? 'ul' : 'ol'\<close>\<close>

definition listTypeOf :: "string \<Rightarrow> list_type" where
  "listTypeOf m = (if js_search listTypeRgx m \<noteq> None then UL else OL)"

text \<open>
  The callbacks of the two calls of \<open>text.replace\<close>: \<open>function (wholeMatch, list, m2)\<close>
  for \<open>subListRgx\<close>, whose \<open>list\<close> is group 1, and \<open>function (wholeMatch, m1, list, m3)\<close>
  for \<open>mainListRgx\<close>, whose \<open>list\<close> is group 2; \<open>k\<close> is the group of \<open>list\<close>, and the group
  after it holds the first marker.
\<close>

definition listCallback ::
  "(string \<Rightarrow> string action) \<Rightarrow> env \<Rightarrow> nat \<Rightarrow> bool \<Rightarrow> match \<Rightarrow> string action" where
  "listCallback list e k trimTrailing m g =
     (case (grp m k, grp m (Suc k)) of
        (Some list', Some marker) \<Rightarrow>
          parseConsecutiveLists (processListItems list e) e list' (listTypeOf marker) trimTrailing g
      | _ \<Rightarrow> TypeError g)"

text \<open>
  The body of the sub-parser; \<open>list\<close> is the sub-parser that the rendering of an item
  calls, which is this sub-parser again.
\<close>

definition list_body :: "(string \<Rightarrow> string action) \<Rightarrow> env \<Rightarrow> string \<Rightarrow> string action" where
  "list_body list e text g =
     (let text = dispatchText e ''makehtml.list.onStart'' text;
          text = text @ sentinel
      in and_then
           (if gListLevel g \<noteq> 0
            then js_replaceM subListRgx (listCallback list e 1 True) text g
            else js_replaceM mainListRgx (listCallback list e 2 False) text g) (\<lambda>(text, g).
         (let text = js_replace sentinelRgx (\<lambda>m. []) text
          in Done (dispatchText e ''makehtml.list.onEnd'' text, g))))"

text \<open>
  The sub-parser, with a bound on the depth of its recursion into itself: a call that
  needs a deeper recursion than \<open>n\<close> is \<open>OutOfFuel\<close>.
\<close>

fun makehtml_list :: "nat \<Rightarrow> env \<Rightarrow> string \<Rightarrow> string action" where
  "makehtml_list 0 e text g = OutOfFuel"
| "makehtml_list (Suc n) e text g = list_body (makehtml_list n e) e text g"


section \<open>Environments\<close>

text \<open>An environment without listeners: every event comes back as it was dispatched.\<close>

definition no_listeners :: "env \<Rightarrow> bool" where
  "no_listeners e = ((\<forall>ev. dispatchCapture e ev = ev) \<and> (\<forall>n t. dispatchText e n t = t))"

text \<open>
  A rendering of attributes for the examples, short enough to read: the names of the
  attributes that are set, each after a space. A flag that is not set and a \<open>null\<close> value
  are left out.
\<close>

fun attr_shown :: "string \<times> attr_value \<Rightarrow> string" where
  "attr_shown (k, AStr v) = '' '' @ k"
| "attr_shown (k, ABool b) = (if b then '' '' @ k else [])"
| "attr_shown (k, AClasses cs) = '' '' @ k"
| "attr_shown (k, ANull) = []"

definition attr_names :: "attrs \<Rightarrow> string" where
  "attr_names a = concat (map attr_shown a)"

text \<open>
  \<open>plain_on e S A\<close>: the environment \<open>e\<close> has no listeners, its helper \<open>outdent\<close> and the
  other sub-parsers return each text of \<open>S\<close> as it is, and \<open>_populateAttributes\<close> renders
  each attribute object of \<open>A\<close> by the names of its attributes. The examples below hold in
  every environment that is plain on the texts and attributes the example meets; what the
  environment does elsewhere is open.
\<close>

definition plain_on :: "env \<Rightarrow> string list \<Rightarrow> attrs list \<Rightarrow> bool" where
  "plain_on e S A =
     (no_listeners e \<and>
      (\<forall>s \<in> set S. outdent e s = s \<and> githubCodeBlock e s = s \<and> blockquote e s = s \<and>
         heading e s = s \<and> codeBlock e s = s \<and> table e s = s \<and> hashHTMLBlocks e s = s \<and>
         paragraphs e s = s \<and> spanGamut e s = s) \<and>
      (\<forall>a \<in> set A. populateAttributes e a = attr_names a))"

definition keeps :: "(string \<Rightarrow> string) \<Rightarrow> string list \<Rightarrow> string \<Rightarrow> string" where
  "keeps f S s = (if s \<in> set S then s else f s)"

definition named :: "(attrs \<Rightarrow> string) \<Rightarrow> attrs list \<Rightarrow> attrs \<Rightarrow> string" where
  "named f A a = (if a \<in> set A then attr_names a else f a)"

text \<open>
  \<open>quiet os S A e\<close>: the environment \<open>e\<close> with the options \<open>os\<close>, made plain on \<open>S\<close> and
  \<open>A\<close>. An environment that is plain on \<open>S\<close> and \<open>A\<close> is \<open>quiet\<close> of itself.
\<close>

definition quiet :: "options \<Rightarrow> string list \<Rightarrow> attrs list \<Rightarrow> env \<Rightarrow> env" where
  "quiet os S A e =
     \<lparr>opts = os, dispatchCapture = (\<lambda>ev. ev), dispatchText = (\<lambda>n t. t),
      outdent = keeps (outdent e) S, populateAttributes = named (populateAttributes e) A,
      githubCodeBlock = keeps (githubCodeBlock e) S, blockquote = keeps (blockquote e) S,
      heading = keeps (heading e) S, codeBlock = keeps (codeBlock e) S,
      table = keeps (table e) S, hashHTMLBlocks = keeps (hashHTMLBlocks e) S,
      paragraphs = keeps (paragraphs e) S, spanGamut = keeps (spanGamut e) S\<rparr>"

lemma plain_on_quiet:
  "plain_on e S A \<Longrightarrow>
     quiet \<lparr>tasklists = tasklists (opts e), moreStyling = moreStyling (opts e),
            disableForced4SpacesIndentedSublists = disableForced4SpacesIndentedSublists (opts e)\<rparr>
       S A e = e"
  by (intro env.equality)
     (auto simp: quiet_def plain_on_def no_listeners_def keeps_def named_def fun_eq_iff)

lemma globals_at:
  "gListLevel g = k \<Longrightarrow> \<lparr>gListLevel = k, gListLevelLog = gListLevelLog g\<rparr> = g"
  by simp

text \<open>
  The environment of the examples: no listeners, the attributes rendered as above, and
  collaborators that return the text they are given.
\<close>

definition plain_env :: "options \<Rightarrow> env" where
  "plain_env os =
     \<lparr>opts = os, dispatchCapture = (\<lambda>ev. ev), dispatchText = (\<lambda>n t. t),
      outdent = (\<lambda>s. s), populateAttributes = attr_names,
      githubCodeBlock = (\<lambda>s. s), blockquote = (\<lambda>s. s), heading = (\<lambda>s. s),
      codeBlock = (\<lambda>s. s), table = (\<lambda>s. s), hashHTMLBlocks = (\<lambda>s. s),
      paragraphs = (\<lambda>s. s), spanGamut = (\<lambda>s. s)\<rparr>"

lemma plain_env_plain: "plain_on (plain_env os) S A"
  by (simp add: plain_on_def plain_env_def no_listeners_def)

definition default_options :: options where
  "default_options = \<lparr>tasklists = False, moreStyling = False, disableForced4SpacesIndentedSublists = False\<rparr>"

definition top_level :: globals where
  "top_level = \<lparr>gListLevel = 0, gListLevelLog = []\<rparr>"

lemma top_level_level [simp]: "gListLevel top_level = 0"
  by (simp add: top_level_def)

text \<open>The attributes the source gives to the checkbox and to the item of a task.\<close>

definition checkboxAttributes :: "bool \<Rightarrow> attrs" where
  "checkboxAttributes checked =
     [(''type'', AStr ''checkbox''), (''disabled'', ABool True),
      (''style'', AStr checkboxStyle), (''checked'', ABool checked)]"

definition taskItemAttributes :: "bool \<Rightarrow> attrs" where
  "taskItemAttributes complete =
     [(''classes'', AClasses ([''task-list-item''] @ (if complete then [''task-list-item-complete''] else []))),
      (''style'', AStr ''list-style-type: none;'')]"

section \<open>Examples of the specification\<close>

subsection \<open>The line of three markers\<close>

lemma three_markers_run:
  "makehtml_list (Suc (Suc n))
      (quiet \<lparr>tasklists = t, moreStyling = st, disableForced4SpacesIndentedSublists = b\<rparr>
         [''- - a\<newline>'', escape_marker @ ''- - a''] [[], [(''start'', ANull)]] e0)
      ''- - - a\<newline>'' \<lparr>gListLevel = 0, gListLevelLog = lg\<rparr> =
   Done (''\<newline>\<newline><ul>\<newline><li>- - a</li>\<newline></ul>\<newline>'',
         \<lparr>gListLevel = 0, gListLevelLog = lg @ [1, 0]\<rparr>)"
  by (induct t; induct b; code_simp; simp)

text \<open>
  Claim C6. The line \<open>- - - a\<close> (a line ends with its newline) renders as one \<open><ul>\<close>
  with one \<open><li>\<close> whose content is \<open>- - a\<close>, and no escape marker is left in the
  output. This holds at the top level, for every setting of the options and every depth
  of recursion allowed from two on, in every environment that is plain on the item
  \<open>- - a\<close>, on the item with the escape marker before it, on the empty attributes and on
  the attributes of a list whose start number is \<open>null\<close>.
\<close>

theorem C6_three_markers:
  assumes "plain_on e [''- - a\<newline>'', escape_marker @ ''- - a''] [[], [(''start'', ANull)]]"
    and "gListLevel g = 0"
  shows "\<exists>g'. makehtml_list (Suc (Suc n)) e ''- - - a\<newline>'' g =
           Done (''\<newline>\<newline><ul>\<newline><li>- - a</li>\<newline></ul>\<newline>'', g')"
  using three_markers_run [of n "tasklists (opts e)" "moreStyling (opts e)"
      "disableForced4SpacesIndentedSublists (opts e)" e "gListLevelLog g"]
    plain_on_quiet [OF assms(1)] globals_at [OF assms(2)]
  by simp

theorem C6_three_markers_witness:
  "\<exists>g'. makehtml_list 2 (plain_env default_options) ''- - - a\<newline>'' top_level =
           Done (''\<newline>\<newline><ul>\<newline><li>- - a</li>\<newline></ul>\<newline>'', g')"
  using C6_three_markers [OF plain_env_plain top_level_level, where n = 0]
  by (simp add: numeral_2_eq_2)

subsection \<open>Task lists\<close>

definition task_texts :: "string list" where
  "task_texts =
     [''[x] done\<newline>'', ''<input type disabled style checked> done'',
      ''[ ] todo\<newline>'', ''<input type disabled style> todo'', ''[x] done'',
      ''[x]\<newline>'', ''<input type disabled style>'', ''[x]'']"

definition task_attrs :: "attrs list" where
  "task_attrs =
     [[], [(''start'', ANull)], checkboxAttributes True, checkboxAttributes False,
      taskItemAttributes True, taskItemAttributes False]"

definition task_options :: options where
  "task_options = \<lparr>tasklists = True, moreStyling = False, disableForced4SpacesIndentedSublists = False\<rparr>"

lemma task_checked_run:
  "makehtml_list (Suc (Suc n))
      (quiet \<lparr>tasklists = True, moreStyling = st, disableForced4SpacesIndentedSublists = b\<rparr>
         task_texts task_attrs e0)
      ''- [x] done\<newline>'' \<lparr>gListLevel = 0, gListLevelLog = lg\<rparr> =
   Done (''\<newline>\<newline><ul>\<newline><li classes style><input type disabled style checked> done</li>\<newline></ul>\<newline>'',
         \<lparr>gListLevel = 0, gListLevelLog = lg @ [1, 0]\<rparr>)"
  by (induct st; induct b; code_simp; simp)

lemma task_unchecked_run:
  "makehtml_list (Suc (Suc n))
      (quiet \<lparr>tasklists = True, moreStyling = st, disableForced4SpacesIndentedSublists = b\<rparr>
         task_texts task_attrs e0)
      ''- [ ] todo\<newline>'' \<lparr>gListLevel = 0, gListLevelLog = lg\<rparr> =
   Done (''\<newline>\<newline><ul>\<newline><li classes style><input type disabled style> todo</li>\<newline></ul>\<newline>'',
         \<lparr>gListLevel = 0, gListLevelLog = lg @ [1, 0]\<rparr>)"
  by (induct st; induct b; code_simp; simp)

lemma task_disabled_run:
  "makehtml_list (Suc (Suc n))
      (quiet \<lparr>tasklists = False, moreStyling = st, disableForced4SpacesIndentedSublists = b\<rparr>
         task_texts task_attrs e0)
      ''- [x] done\<newline>'' \<lparr>gListLevel = 0, gListLevelLog = lg\<rparr> =
   Done (''\<newline>\<newline><ul>\<newline><li>[x] done</li>\<newline></ul>\<newline>'',
         \<lparr>gListLevel = 0, gListLevelLog = lg @ [1, 0]\<rparr>)"
  by (induct b; code_simp; simp)

lemma task_token_only_run:
  "makehtml_list (Suc (Suc n))
      (quiet \<lparr>tasklists = True, moreStyling = st, disableForced4SpacesIndentedSublists = b\<rparr>
         task_texts task_attrs e0)
      ''- [x]\<newline>'' \<lparr>gListLevel = 0, gListLevelLog = lg\<rparr> =
   Done (''\<newline>\<newline><ul>\<newline><li><input type disabled style></li>\<newline></ul>\<newline>'',
         \<lparr>gListLevel = 0, gListLevelLog = lg @ [1, 0]\<rparr>)"
  by (induct st; induct b; code_simp; simp)

lemma task_token_only_disabled_run:
  "makehtml_list (Suc (Suc n))
      (quiet \<lparr>tasklists = False, moreStyling = st, disableForced4SpacesIndentedSublists = b\<rparr>
         task_texts task_attrs e0)
      ''- [x]\<newline>'' \<lparr>gListLevel = 0, gListLevelLog = lg\<rparr> =
   Done (''\<newline>\<newline><ul>\<newline><li>[x]</li>\<newline></ul>\<newline>'',
         \<lparr>gListLevel = 0, gListLevelLog = lg @ [1, 0]\<rparr>)"
  by (induct b; code_simp; simp)

lemma checkbox_default:
  "no_listeners e \<Longrightarrow>
     checkbox e item checked m =
       ''<input'' @ populateAttributes e
          [(''type'', AStr ''checkbox''), (''disabled'', ABool True),
           (''style'', AStr ''margin: 0px 0.35em 0.25em -1.6em; vertical-align: middle;''),
           (''checked'', ABool checked)] @ ''>''"
  by (simp add: checkbox_def no_listeners_def checkboxStyle_def)

text \<open>
  Claim C4. With task lists enabled the item \<open>- [x] done\<close> renders as the claim says: a
  list item of the class of task items that holds a checkbox and then the text \<open>done\<close>,
  the checkbox being \<open><input\<close> followed by what \<open>_populateAttributes\<close> makes of
  \<open>type = checkbox\<close>, \<open>disabled = true\<close>, the inline \<open>style\<close> and \<open>checked\<close>, with \<open>checked\<close>
  set for \<open>[x]\<close> and not set for \<open>[ ]\<close>. The item \<open>- [x]\<close>, whose body is the token and
  nothing after it, does not: the pattern of the items asks for a character between the
  token and the end of the line, so the token is not captured, the item gets none of the
  attributes of a task item, and \<open>processTaskListItem\<close>, which runs for every item when
  task lists are enabled, writes the checkbox with \<open>checked\<close> not set although the token is
  \<open>[x]\<close>. With task lists disabled both bodies are the content of the item, unchanged.
  This holds at the top level, for every setting of the other options, in every
  environment that is plain on the texts and attributes of the examples; in the rendered
  items the attributes are shown by their names.
\<close>

theorem C4_checkbox_of_token_only_item:
  assumes "plain_on e task_texts task_attrs" and "gListLevel g = 0"
  shows "(tasklists (opts e) \<longrightarrow>
            (\<exists>g'. makehtml_list (Suc (Suc n)) e ''- [x] done\<newline>'' g =
               Done (''\<newline>\<newline><ul>\<newline><li classes style><input type disabled style checked> done</li>\<newline></ul>\<newline>'', g')) \<and>
            (\<exists>g'. makehtml_list (Suc (Suc n)) e ''- [ ] todo\<newline>'' g =
               Done (''\<newline>\<newline><ul>\<newline><li classes style><input type disabled style> todo</li>\<newline></ul>\<newline>'', g')) \<and>
            (\<exists>g'. makehtml_list (Suc (Suc n)) e ''- [x]\<newline>'' g =
               Done (''\<newline>\<newline><ul>\<newline><li><input type disabled style></li>\<newline></ul>\<newline>'', g'))) \<and>
         (\<not> tasklists (opts e) \<longrightarrow>
            (\<exists>g'. makehtml_list (Suc (Suc n)) e ''- [x] done\<newline>'' g =
               Done (''\<newline>\<newline><ul>\<newline><li>[x] done</li>\<newline></ul>\<newline>'', g')) \<and>
            (\<exists>g'. makehtml_list (Suc (Suc n)) e ''- [x]\<newline>'' g =
               Done (''\<newline>\<newline><ul>\<newline><li>[x]</li>\<newline></ul>\<newline>'', g'))) \<and>
         (\<forall>item checked m. checkbox e item checked m =
            ''<input'' @ populateAttributes e
               [(''type'', AStr ''checkbox''), (''disabled'', ABool True),
                (''style'', AStr ''margin: 0px 0.35em 0.25em -1.6em; vertical-align: middle;''),
                (''checked'', ABool checked)] @ ''>'')"
proof -
  let ?st = "moreStyling (opts e)" and ?b = "disableForced4SpacesIndentedSublists (opts e)"
  have plain: "no_listeners e"
    using assms(1) by (simp add: plain_on_def)
  show ?thesis
    using task_checked_run [of n ?st ?b e "gListLevelLog g"]
      task_unchecked_run [of n ?st ?b e "gListLevelLog g"]
      task_token_only_run [of n ?st ?b e "gListLevelLog g"]
      task_disabled_run [of n ?st ?b e "gListLevelLog g"]
      task_token_only_disabled_run [of n ?st ?b e "gListLevelLog g"]
      plain_on_quiet [OF assms(1)] globals_at [OF assms(2)] checkbox_default [OF plain]
    by (cases "tasklists (opts e)") auto
qed

theorem C4_checkbox_of_token_only_item_witness:
  "(\<exists>g'. makehtml_list 2 (plain_env task_options) ''- [x] done\<newline>'' top_level =
       Done (''\<newline>\<newline><ul>\<newline><li classes style><input type disabled style checked> done</li>\<newline></ul>\<newline>'', g')) \<and>
   (\<exists>g'. makehtml_list 2 (plain_env task_options) ''- [x]\<newline>'' top_level =
       Done (''\<newline>\<newline><ul>\<newline><li><input type disabled style></li>\<newline></ul>\<newline>'', g')) \<and>
   (\<exists>g'. makehtml_list 2 (plain_env default_options) ''- [x]\<newline>'' top_level =
       Done (''\<newline>\<newline><ul>\<newline><li>[x]</li>\<newline></ul>\<newline>'', g'))"
  using C4_checkbox_of_token_only_item [OF plain_env_plain top_level_level, where n = 0 and os1 = task_options]
    C4_checkbox_of_token_only_item [OF plain_env_plain top_level_level, where n = 0 and os1 = default_options]
  by (simp add: numeral_2_eq_2 plain_env_def task_options_def default_options_def)

subsection \<open>The start number of a run that follows another\<close>

definition start_texts :: "string list" where
  "start_texts = [''a\<newline>'', ''a'', ''b\<newline>'', ''b'']"

definition start_attrs :: "attrs list" where
  "start_attrs = [[], [(''start'', ANull)], [(''start'', AStr ''5'')]]"

lemma start_single_run:
  "makehtml_list (Suc (Suc n))
      (quiet \<lparr>tasklists = t, moreStyling = st, disableForced4SpacesIndentedSublists = b\<rparr>
         start_texts start_attrs e0)
      ''5. b\<newline>'' \<lparr>gListLevel = 0, gListLevelLog = lg\<rparr> =
   Done (''\<newline>\<newline><ol start>\<newline><li>b</li>\<newline></ol>\<newline>'',
         \<lparr>gListLevel = 0, gListLevelLog = lg @ [1, 0]\<rparr>)"
  by (induct t; induct b; code_simp; simp)

lemma start_split_run:
  "makehtml_list (Suc (Suc n))
      (quiet \<lparr>tasklists = t, moreStyling = st, disableForced4SpacesIndentedSublists = b\<rparr>
         start_texts start_attrs e0)
      ''- a\<newline>5. b\<newline>'' \<lparr>gListLevel = 0, gListLevelLog = lg\<rparr> =
   Done (''\<newline>\<newline><ul>\<newline><li>a</li>\<newline></ul>\<newline>\<newline>\<newline><ol>\<newline><li>b</li>\<newline></ol>\<newline>'',
         \<lparr>gListLevel = 0, gListLevelLog = lg @ [1, 0, 1, 0]\<rparr>)"
  by (induct t; induct b; code_simp; simp)

text \<open>
  Claim C3, which the code does not meet. A block that is one ordinal run starting at
  \<open>5.\<close> gets the attribute \<open>start\<close>. In the block \<open>- a\<close>, \<open>5. b\<close> the ordinal run comes
  from the splitting of consecutive lists, and its \<open><ol>\<close> gets no start number:
  \<open>parseCL\<close> computes the start number from \<open>list\<close>, the whole block, whose first line is
  the bullet, and not from \<open>txt\<close>, the run it is about to render.
\<close>

theorem C3_start_of_split_run:
  assumes "plain_on e start_texts start_attrs" and "gListLevel g = 0"
  shows "(\<exists>g'. makehtml_list (Suc (Suc n)) e ''5. b\<newline>'' g =
            Done (''\<newline>\<newline><ol start>\<newline><li>b</li>\<newline></ol>\<newline>'', g')) \<and>
         (\<exists>g'. makehtml_list (Suc (Suc n)) e ''- a\<newline>5. b\<newline>'' g =
            Done (''\<newline>\<newline><ul>\<newline><li>a</li>\<newline></ul>\<newline>\<newline>\<newline><ol>\<newline><li>b</li>\<newline></ol>\<newline>'', g')) \<and>
         styleStartNumber (''- a\<newline>5. b\<newline>'' @ sentinel) OL = None \<and>
         styleStartNumber (''5. b\<newline>'' @ sentinel) OL = Some ''5''"
proof -
  have "styleStartNumber (''- a\<newline>5. b\<newline>'' @ sentinel) OL = None"
    by code_simp
  moreover have "styleStartNumber (''5. b\<newline>'' @ sentinel) OL = Some ''5''"
    by code_simp
  ultimately show ?thesis
    using start_single_run [of n "tasklists (opts e)" "moreStyling (opts e)"
        "disableForced4SpacesIndentedSublists (opts e)" e "gListLevelLog g"]
      start_split_run [of n "tasklists (opts e)" "moreStyling (opts e)"
        "disableForced4SpacesIndentedSublists (opts e)" e "gListLevelLog g"]
      plain_on_quiet [OF assms(1)] globals_at [OF assms(2)]
    by simp
qed

theorem C3_start_of_split_run_witness:
  "\<exists>g'. makehtml_list 2 (plain_env default_options) ''- a\<newline>5. b\<newline>'' top_level =
            Done (''\<newline>\<newline><ul>\<newline><li>a</li>\<newline></ul>\<newline>\<newline>\<newline><ol>\<newline><li>b</li>\<newline></ol>\<newline>'', g')"
  using C3_start_of_split_run [OF plain_env_plain top_level_level, where n = 0 and os1 = default_options]
  by (simp add: numeral_2_eq_2)

subsection \<open>A checkbox token on a later line\<close>

definition later_texts :: "string list" where
  "later_texts = [''a\<newline>[x] b\<newline>'', ''a\<newline><input type disabled style> b'']"

lemma later_token_run:
  "makehtml_list (Suc (Suc n))
      (quiet \<lparr>tasklists = True, moreStyling = st, disableForced4SpacesIndentedSublists = b\<rparr>
         later_texts task_attrs e0)
      ''- a\<newline>[x] b\<newline>'' \<lparr>gListLevel = 0, gListLevelLog = lg\<rparr> =
   Done (''\<newline>\<newline><ul>\<newline><li>a\<newline><input type disabled style> b</li>\<newline></ul>\<newline>'',
         \<lparr>gListLevel = 0, gListLevelLog = lg @ [1, 0]\<rparr>)"
  by (induct b; code_simp; simp)

text \<open>
  Claim C5, which the code does not meet. With task lists enabled, the item of
  \<open>- a\<close> followed by the line \<open>[x] b\<close> does not begin with a checkbox token, and yet
  \<open>processTaskListItem\<close> rewrites the token of its second line into a checkbox, which is
  not checked: \<open>checkboxRgx\<close> has the flag \<open>m\<close>, so its \<open>^\<close> matches at the start of
  every line of the item.
\<close>

theorem C5_token_on_later_line:
  assumes "plain_on e later_texts task_attrs" and "gListLevel g = 0" and "tasklists (opts e)"
  shows "(\<exists>g'. makehtml_list (Suc (Suc n)) e ''- a\<newline>[x] b\<newline>'' g =
            Done (''\<newline>\<newline><ul>\<newline><li>a\<newline><input type disabled style> b</li>\<newline></ul>\<newline>'', g')) \<and>
         processTaskListItem e ''a\<newline>[x] b\<newline>'' False = ''a\<newline><input type disabled style> b\<newline>''"
proof -
  have "processTaskListItem (quiet \<lparr>tasklists = True, moreStyling = moreStyling (opts e),
          disableForced4SpacesIndentedSublists = disableForced4SpacesIndentedSublists (opts e)\<rparr> later_texts task_attrs e)
          ''a\<newline>[x] b\<newline>'' False = ''a\<newline><input type disabled style> b\<newline>''"
    by code_simp
  then show ?thesis
    using later_token_run [of n "moreStyling (opts e)" "disableForced4SpacesIndentedSublists (opts e)" e "gListLevelLog g"]
      plain_on_quiet [OF assms(1)] globals_at [OF assms(2)] assms(3)
    by simp
qed

theorem C5_token_on_later_line_witness:
  "processTaskListItem (plain_env task_options) ''a\<newline>[x] b\<newline>'' False = ''a\<newline><input type disabled style> b\<newline>''"
  using C5_token_on_later_line [OF plain_env_plain top_level_level, where n = 0 and os1 = task_options]
  by (simp add: plain_env_def task_options_def)

section \<open>The nesting-depth counter\<close>

text \<open>
  \<open>balanced g g'\<close>: from \<open>g\<close> to \<open>g'\<close> the counter came back to its value, and every value
  it was given on the way is at least that value.
\<close>

definition balanced :: "globals \<Rightarrow> globals \<Rightarrow> bool" where
  "balanced g g' =
     (gListLevel g' = gListLevel g \<and>
      (\<exists>h. gListLevelLog g' = gListLevelLog g @ h \<and> (\<forall>v \<in> set h. gListLevel g \<le> v)))"

definition keeps_level :: "'a action \<Rightarrow> bool" where
  "keeps_level f = (\<forall>g x g'. f g = Done (x, g') \<longrightarrow> balanced g g')"

lemma balanced_refl [simp]: "balanced g g"
  by (simp add: balanced_def)




lemma keeps_level_Done [simp]: "keeps_level (\<lambda>g. Done (x, g))"
  by (simp add: keeps_level_def)























section \<open>Consecutive lists\<close>








lemma set_attr_twice [simp]: "set_attr k v (set_attr k w a) = set_attr k v a"
  by (induction a) auto













section \<open>Listeners\<close>





















end
